theory Spec2Isabelle
  imports Complex_Main "HOL-Library.Word"
begin

section \<open>The effects rack of \<^verbatim>\<open>src/modules/jackrack/vst2_plugin.c\<close>\<close>

text \<open>
  The rack is a doubly linked chain of plugin objects. Plugin objects live in a store
  that maps an address to the object found there; a pointer is an address, a nullable
  pointer is an optional address (\<open>None\<close> is \<^verbatim>\<open>NULL\<close>). Every address holds an
  object: a pointer that is not \<^verbatim>\<open>NULL\<close> can always be followed.

  The functions of the C file are translated statement by statement. An assignment
  through a pointer is an update of the store, and the store is read again after each
  assignment, so that aliasing between the pointers involved behaves as in C. Where C
  leaves the behaviour undefined (an index outside an array, a \<^verbatim>\<open>NULL\<close> pointer
  followed), and where a loop does not end, the model has no result.

  An array obtained from \<^verbatim>\<open>g_malloc\<close> is the list of its cells. A cell is \<open>None\<close>
  until the code has written it. The empty list is the \<^verbatim>\<open>NULL\<close> pointer, which
  \<^verbatim>\<open>g_malloc\<close> returns for a request of zero bytes and which the code stores itself
  for an absent array.

  Counts (\<^verbatim>\<open>copies\<close>, port counts, channel counts) are natural numbers: the code
  never subtracts from them, and the callers never hand in negative ones. The parameter
  index passed to the native instance is computed on machine words, as in C on a
  platform where \<^verbatim>\<open>unsigned long\<close> has 64 bits and \<^verbatim>\<open>int\<close> 32.

  The file is modelled as it is compiled with \<^verbatim>\<open>WITH_JACK\<close>; without the audio server
  the code behaves as it does with \<open>jack_client = None\<close>.
\<close>

section \<open>Data\<close>

type_synonym ptr = nat

type_synonym 'a array = "'a option list"

text \<open>\<^verbatim>\<open>LADSPA_Data\<close> is \<^verbatim>\<open>float\<close>. The code stores and passes these values on and
  never computes with them, so they are modelled as reals.\<close>

type_synonym LADSPA_Data = real

text \<open>The descriptor is read only. It is reached through \<^verbatim>\<open>plugin->desc\<close>; since no
  function of the file writes to a descriptor, the plugin object carries its value.
  Only the fields the modelled functions read are kept. \<^verbatim>\<open>id\<close>, \<^verbatim>\<open>name\<close> and
  \<^verbatim>\<open>effect\<close> carry a prefix, the other names are the ones of the source.\<close>

record vst2_plugin_desc =
  desc_id :: nat
  desc_name :: string
  desc_effect :: "ptr option"
  aux_channels :: nat
  aux_are_input :: bool
  control_port_count :: nat
  control_port_indicies :: "64 word list"
  status_port_count :: nat

text \<open>A lock free fifo is known here only through its \<^verbatim>\<open>lff_init\<close> call: the number
  of entries and the size of one entry.\<close>

record lff =
  lff_size :: nat
  lff_object_size :: nat

text \<open>\<open>aux_ports\<close> is \<open>None\<close> as long as the field has never been assigned.\<close>

record vst2_holder =
  effect :: "ptr option"
  ui_control_fifos :: "lff array"
  control_memory :: "LADSPA_Data array"
  status_memory :: "LADSPA_Data array"
  aux_ports :: "ptr array option"

text \<open>The plugin object. \<^verbatim>\<open>next\<close> and \<^verbatim>\<open>prev\<close> are named \<open>next_plugin\<close> and
  \<open>prev_plugin\<close>. The fields \<^verbatim>\<open>dl_handle\<close>, \<^verbatim>\<open>audio_input_memory\<close> and
  \<^verbatim>\<open>vst2_context\<close> are left out: none of the modelled functions reads them.\<close>

record vst2_plugin =
  desc :: vst2_plugin_desc
  enabled :: bool
  copies :: nat
  holders :: "vst2_holder array"
  audio_output_memory :: "ptr option array"
  wet_dry_enabled :: bool
  wet_dry_values :: "LADSPA_Data array"
  wet_dry_fifos :: "lff array"
  next_plugin :: "ptr option"
  prev_plugin :: "ptr option"

text \<open>What the native plugin instance and the audio server have been asked to do.\<close>

datatype event =
  SetParameter ptr "32 word" LADSPA_Data
  | SetSampleRate ptr LADSPA_Data
  | PortRegister string bool
  | DlClose

text \<open>The state: the processing context (\<^verbatim>\<open>procinfo->chain\<close>,
  \<^verbatim>\<open>procinfo->chain_end\<close>, \<^verbatim>\<open>procinfo->jack_client\<close>), the store of plugin
  objects, the blocks handed out by \<^verbatim>\<open>g_malloc\<close> and not yet freed, the next address
  the allocator hands out, and the calls made so far on native instances and on the
  audio server.\<close>

record state =
  chain :: "ptr option"
  chain_end :: "ptr option"
  jack_client :: "ptr option"
  store :: "ptr \<Rightarrow> vst2_plugin"
  live :: "ptr list"
  brk :: ptr
  trace :: "event list"

text \<open>How a run can end without returning: the behaviour is undefined in C, or
  the process was ended by a fatal log message.\<close>

datatype fault = Undefined_Behaviour | Fatal_Log

text \<open>What the file takes from elsewhere. \<open>vst2_plugin_desc_get_copies\<close> and
  \<open>vst2_plugin_desc_get_default_control_value\<close> belong to the descriptor module,
  \<open>vst2_sample_rate\<close> and \<open>vst2_buffer_size\<close> are global variables, \<open>numInputs\<close>
  and \<open>numOutputs\<close> are the read only counts of a native instance (by its address), and
  \<open>jack_port_register\<close> is the audio server's answer to a registration: a port handle
  or \<^verbatim>\<open>NULL\<close>, which may depend on the calls made before.\<close>

record externals =
  vst2_plugin_desc_get_copies :: "vst2_plugin_desc \<Rightarrow> nat \<Rightarrow> nat"
  vst2_plugin_desc_get_default_control_value :: "vst2_plugin_desc \<Rightarrow> 64 word \<Rightarrow> nat \<Rightarrow> LADSPA_Data"
  vst2_sample_rate :: nat
  vst2_buffer_size :: nat
  numInputs :: "ptr \<Rightarrow> 32 word"
  numOutputs :: "ptr \<Rightarrow> 32 word"
  jack_port_register :: "event list \<Rightarrow> string \<Rightarrow> bool \<Rightarrow> ptr option"

section \<open>The chain operations\<close>

text \<open>\<^verbatim>\<open>p->next = v\<close> and \<^verbatim>\<open>p->prev = v\<close>, and the two reads.\<close>

definition set_next :: "ptr \<Rightarrow> ptr option \<Rightarrow> state \<Rightarrow> state" where
  "set_next p v s = s\<lparr>store := (store s)(p := (store s p)\<lparr>next_plugin := v\<rparr>)\<rparr>"

definition set_prev :: "ptr \<Rightarrow> ptr option \<Rightarrow> state \<Rightarrow> state" where
  "set_prev p v s = s\<lparr>store := (store s)(p := (store s p)\<lparr>prev_plugin := v\<rparr>)\<rparr>"

definition get_next :: "state \<Rightarrow> ptr \<Rightarrow> ptr option" where
  "get_next s p = next_plugin (store s p)"

definition get_prev :: "state \<Rightarrow> ptr \<Rightarrow> ptr option" where
  "get_prev s p = prev_plugin (store s p)"

text \<open>One round of the loop of \<^verbatim>\<open>vst2_plugin_swap_aux_ports\<close>. An index outside one
  of the two holder arrays, or a holder that was never initialised, has no defined
  behaviour in C: the result is \<open>None\<close>.\<close>

definition get_aux_ports :: "state \<Rightarrow> ptr \<Rightarrow> nat \<Rightarrow> ptr array option option" where
  "get_aux_ports s p copy =
     (if copy < length (holders (store s p)) then
        (case holders (store s p) ! copy of
           None \<Rightarrow> None
         | Some h \<Rightarrow> Some (aux_ports h))
      else None)"

definition set_aux_ports :: "ptr \<Rightarrow> nat \<Rightarrow> ptr array option \<Rightarrow> state \<Rightarrow> state option" where
  "set_aux_ports p copy v s =
     (if copy < length (holders (store s p)) then
        (case holders (store s p) ! copy of
           None \<Rightarrow> None
         | Some h \<Rightarrow>
             Some (s\<lparr>store := (store s)(p := (store s p)
               \<lparr>holders := (holders (store s p))[copy := Some (h\<lparr>aux_ports := v\<rparr>)]\<rparr>)\<rparr>))
      else None)"

definition swap_copy :: "state \<Rightarrow> ptr \<Rightarrow> ptr \<Rightarrow> nat \<Rightarrow> state option" where
  "swap_copy s plugin other copy =
     (case get_aux_ports s other copy of
        None \<Rightarrow> None
      | Some aux_ports_tmp \<Rightarrow>
          (case get_aux_ports s plugin copy of
             None \<Rightarrow> None
           | Some a \<Rightarrow>
               (case set_aux_ports other copy a s of
                  None \<Rightarrow> None
                | Some s1 \<Rightarrow> set_aux_ports plugin copy aux_ports_tmp s1)))"

lemma set_aux_ports_copies:
  "set_aux_ports p c v s = Some s' \<Longrightarrow> copies (store s' q) = copies (store s q)"
  by (auto simp: set_aux_ports_def split: if_splits option.splits)

lemma swap_copy_copies:
  "swap_copy s plugin other c = Some s' \<Longrightarrow> copies (store s' q) = copies (store s q)"
proof -
  assume "swap_copy s plugin other c = Some s'"
  then obtain a b s1 where "set_aux_ports other c a s = Some s1"
    and "set_aux_ports plugin c b s1 = Some s'"
    by (auto simp: swap_copy_def split: option.splits)
  then show ?thesis
    using set_aux_ports_copies [of other c a s s1 q] set_aux_ports_copies [of plugin c b s1 s' q]
    by simp
qed

text \<open>The loop \<^verbatim>\<open>for (copy = 0; copy < plugin->copies; copy++)\<close>, entered at
  \<open>copy\<close>. The bound is read from the store in every round.\<close>

function swap_from :: "state \<Rightarrow> ptr \<Rightarrow> ptr \<Rightarrow> nat \<Rightarrow> state option" where
  "swap_from s plugin other copy =
     (if copy < copies (store s plugin) then
        (case swap_copy s plugin other copy of
           None \<Rightarrow> None
         | Some s' \<Rightarrow> swap_from s' plugin other (Suc copy))
      else Some s)"
  by pat_completeness auto
termination
proof (relation "measure (\<lambda>(s, plugin, other, copy). copies (store s plugin) - copy)")
  show "wf (measure (\<lambda>(s, plugin, other, copy). copies (store s plugin) - copy))"
    by simp
next
  fix s :: state and plugin other copy :: nat and s' :: state
  assume "copy < copies (store s plugin)" and "swap_copy s plugin other copy = Some s'"
  then show "((s', plugin, other, Suc copy), s, plugin, other, copy)
      \<in> measure (\<lambda>(s, plugin, other, copy). copies (store s plugin) - copy)"
    using swap_copy_copies [of s plugin other copy s' plugin] by simp
qed

text \<open>\<^verbatim>\<open>vst2_plugin_swap_aux_ports\<close>.\<close>

definition vst2_plugin_swap_aux_ports :: "state \<Rightarrow> ptr \<Rightarrow> ptr \<Rightarrow> state option" where
  "vst2_plugin_swap_aux_ports s plugin other = swap_from s plugin other 0"

text \<open>\<^verbatim>\<open>vst2_process_add_plugin\<close>.\<close>

definition vst2_process_add_plugin :: "state \<Rightarrow> ptr \<Rightarrow> state" where
  "vst2_process_add_plugin procinfo plugin =
     (let s1 = set_next plugin None procinfo;
          s2 = set_prev plugin (chain_end s1) s1;
          s3 = (case chain_end s2 of
                  Some e \<Rightarrow> set_next e (Some plugin) s2
                | None \<Rightarrow> s2\<lparr>chain := Some plugin\<rparr>)
      in s3\<lparr>chain_end := Some plugin\<rparr>)"

text \<open>The pointer part of \<^verbatim>\<open>vst2_process_remove_plugin\<close>.\<close>

definition unlink_plugin :: "state \<Rightarrow> ptr \<Rightarrow> state" where
  "unlink_plugin procinfo plugin =
     (let s1 = (case get_prev procinfo plugin of
                  Some p \<Rightarrow> set_next p (get_next procinfo plugin) procinfo
                | None \<Rightarrow> procinfo\<lparr>chain := get_next procinfo plugin\<rparr>)
      in (case get_next s1 plugin of
            Some n \<Rightarrow> set_prev n (get_prev s1 plugin) s1
          | None \<Rightarrow> s1\<lparr>chain_end := get_prev s1 plugin\<rparr>))"

text \<open>The loop
  \<^verbatim>\<open>for (other = plugin->next; other; other = other->next)\<close>
  of remove and change, entered at \<open>other\<close>. In a store whose \<^verbatim>\<open>next\<close> pointers run in
  a circle the loop never ends; the result is then \<open>None\<close>, as it is when a swap has
  no defined behaviour.\<close>

partial_function (option) aux_loop :: "state \<Rightarrow> ptr \<Rightarrow> ptr option \<Rightarrow> state option" where
  "aux_loop s plugin other =
     (case other of
        None \<Rightarrow> Some s
      | Some ot \<Rightarrow>
          (if desc_id (desc (store s ot)) = desc_id (desc (store s plugin)) then
             (case vst2_plugin_swap_aux_ports s plugin ot of
                None \<Rightarrow> None
              | Some s' \<Rightarrow> aux_loop s' plugin (get_next s' ot))
           else aux_loop s plugin (get_next s ot)))"

declare aux_loop.simps [code]

text \<open>The block "sort out the aux ports" shared by remove and change.\<close>

definition sort_out_aux_ports :: "state \<Rightarrow> ptr \<Rightarrow> state option" where
  "sort_out_aux_ports s plugin =
     (if jack_client s \<noteq> None \<and> aux_channels (desc (store s plugin)) > 0 then
        aux_loop s plugin (get_next s plugin)
      else Some s)"

text \<open>\<^verbatim>\<open>vst2_process_remove_plugin\<close>: the new state and the returned pointer.\<close>

definition vst2_process_remove_plugin :: "state \<Rightarrow> ptr \<Rightarrow> (state \<times> ptr) option" where
  "vst2_process_remove_plugin procinfo plugin =
     (case sort_out_aux_ports (unlink_plugin procinfo plugin) plugin of
        None \<Rightarrow> None
      | Some s \<Rightarrow> Some (s, plugin))"

text \<open>The two branches of \<^verbatim>\<open>vst2_process_move_plugin\<close> after the boundary test, with
  \<open>pp\<close>, \<open>p\<close>, \<open>n\<close> and \<open>nn\<close> as read on entry.\<close>

definition move_up :: "state \<Rightarrow> ptr \<Rightarrow> ptr option \<Rightarrow> ptr \<Rightarrow> ptr option \<Rightarrow> state" where
  "move_up procinfo plugin pp p n =
     (let s1 = (case pp of
                  Some q \<Rightarrow> set_next q (Some plugin) procinfo
                | None \<Rightarrow> procinfo\<lparr>chain := Some plugin\<rparr>);
          s2 = set_next p n s1;
          s3 = set_prev p (Some plugin) s2;
          s4 = set_prev plugin pp s3;
          s5 = set_next plugin (Some p) s4
      in (case n of
            Some q \<Rightarrow> set_prev q (Some p) s5
          | None \<Rightarrow> s5\<lparr>chain_end := Some p\<rparr>))"

definition move_down :: "state \<Rightarrow> ptr \<Rightarrow> ptr option \<Rightarrow> ptr \<Rightarrow> ptr option \<Rightarrow> state" where
  "move_down procinfo plugin p n nn =
     (let s1 = (case p of
                  Some q \<Rightarrow> set_next q (Some n) procinfo
                | None \<Rightarrow> procinfo\<lparr>chain := Some n\<rparr>);
          s2 = set_prev n p s1;
          s3 = set_next n (Some plugin) s2;
          s4 = set_prev plugin (Some n) s3;
          s5 = set_next plugin nn s4
      in (case nn of
            Some q \<Rightarrow> set_prev q (Some plugin) s5
          | None \<Rightarrow> s5\<lparr>chain_end := Some plugin\<rparr>))"

text \<open>The last block of move. \<open>other\<close> is read from the plugin after the pointers have
  been rewritten; dereferencing it when it is \<^verbatim>\<open>NULL\<close> has no defined behaviour.\<close>

definition move_aux_ports :: "state \<Rightarrow> ptr \<Rightarrow> bool \<Rightarrow> state option" where
  "move_aux_ports s plugin up =
     (if jack_client s \<noteq> None \<and> aux_channels (desc (store s plugin)) > 0 then
        (case (if up then get_next s plugin else get_prev s plugin) of
           None \<Rightarrow> None
         | Some other \<Rightarrow>
             (if desc_id (desc (store s other)) = desc_id (desc (store s plugin)) then
                vst2_plugin_swap_aux_ports s plugin other
              else Some s))
      else Some s)"

text \<open>\<^verbatim>\<open>vst2_process_move_plugin\<close>. \<open>up\<close> is the truth value of the argument
  \<^verbatim>\<open>up\<close>. At the boundary the function returns before anything is written.\<close>

definition vst2_process_move_plugin :: "state \<Rightarrow> ptr \<Rightarrow> bool \<Rightarrow> state option" where
  "vst2_process_move_plugin procinfo plugin up =
     (let p = get_prev procinfo plugin;
          pp = (case p of Some q \<Rightarrow> get_prev procinfo q | None \<Rightarrow> None);
          n = get_next procinfo plugin;
          nn = (case n of Some q \<Rightarrow> get_next procinfo q | None \<Rightarrow> None)
      in if up then
           (case p of
              None \<Rightarrow> Some procinfo
            | Some p' \<Rightarrow> move_aux_ports (move_up procinfo plugin pp p' n) plugin up)
         else
           (case n of
              None \<Rightarrow> Some procinfo
            | Some n' \<Rightarrow> move_aux_ports (move_down procinfo plugin p n' nn) plugin up))"

text \<open>The pointer part of \<^verbatim>\<open>vst2_process_change_plugin\<close>.\<close>

definition splice_plugin :: "state \<Rightarrow> ptr \<Rightarrow> ptr \<Rightarrow> state" where
  "splice_plugin procinfo plugin new_plugin =
     (let s1 = set_next new_plugin (get_next procinfo plugin) procinfo;
          s2 = set_prev new_plugin (get_prev s1 plugin) s1;
          s3 = (case get_prev s2 plugin of
                  Some p \<Rightarrow> set_next p (Some new_plugin) s2
                | None \<Rightarrow> s2\<lparr>chain := Some new_plugin\<rparr>)
      in (case get_next s3 plugin of
            Some n \<Rightarrow> set_prev n (Some new_plugin) s3
          | None \<Rightarrow> s3\<lparr>chain_end := Some new_plugin\<rparr>))"

text \<open>\<^verbatim>\<open>vst2_process_change_plugin\<close>: the new state and the returned pointer.\<close>

definition vst2_process_change_plugin :: "state \<Rightarrow> ptr \<Rightarrow> ptr \<Rightarrow> (state \<times> ptr) option" where
  "vst2_process_change_plugin procinfo plugin new_plugin =
     (case sort_out_aux_ports (splice_plugin procinfo plugin new_plugin) plugin of
        None \<Rightarrow> None
      | Some s \<Rightarrow> Some (s, plugin))"

section \<open>Creating a node\<close>

text \<open>
  \<^verbatim>\<open>vst2_plugin_new\<close> and the functions it calls. What they use from other files is a
  parameter of the model (the record \<open>externals\<close>); the calls they make on the native
  plugin instance and on the audio server are appended to the trace of the state.
  Warnings written to the log are left out: they change nothing the model holds.
\<close>

text \<open>\<^verbatim>\<open>#define CONTROL_FIFO_SIZE 128\<close>\<close>

definition CONTROL_FIFO_SIZE :: nat where
  "CONTROL_FIFO_SIZE = 128"

text \<open>glib's allocator. The argument is the number of elements asked for (the size of
  an element is positive). A request of zero bytes returns \<^verbatim>\<open>NULL\<close> and allocates
  nothing; any other request returns the next unused address and records the block as
  live. Running out of memory, which makes glib abort, is not modelled.\<close>

definition g_malloc :: "nat \<Rightarrow> state \<Rightarrow> ptr option \<times> state" where
  "g_malloc n s =
     (if n = 0 then (None, s)
      else (Some (brk s), s\<lparr>live := brk s # live s, brk := Suc (brk s)\<rparr>))"

text \<open>\<^verbatim>\<open>g_free\<close>: the block is live no longer; \<^verbatim>\<open>g_free(NULL)\<close> does nothing.\<close>

definition g_free :: "ptr option \<Rightarrow> state \<Rightarrow> state" where
  "g_free p s = (case p of None \<Rightarrow> s | Some a \<Rightarrow> s\<lparr>live := removeAll a (live s)\<rparr>)"

text \<open>Modelled from the spec: \<^verbatim>\<open>lff_init\<close> is defined in
  \<^verbatim>\<open>modules/jackrack/lock_free_fifo.c\<close>, which is not among the sources. The spec says
  that it initialises a parameter update channel of the given capacity; the model keeps
  the two arguments of the call.\<close>

definition lff_init :: "nat \<Rightarrow> nat \<Rightarrow> lff" where
  "lff_init n object_size = \<lparr>lff_size = n, lff_object_size = object_size\<rparr>"

text \<open>A counted \<^verbatim>\<open>for\<close> loop whose body may end the run: the body is applied to the
  indices in turn and the loop stops at the first fault.\<close>

primrec for_each :: "nat list \<Rightarrow> (nat \<Rightarrow> 'a \<Rightarrow> fault + 'a) \<Rightarrow> 'a \<Rightarrow> fault + 'a" where
  "for_each [] body x = Inr x"
| "for_each (i # is) body x =
     (case body i x of Inl e \<Rightarrow> Inl e | Inr y \<Rightarrow> for_each is body y)"

text \<open>\<^verbatim>\<open>vst2_plugin_open_plugin\<close>: the result is the returned error code together
  with \<^verbatim>\<open>*effect_ptr\<close>. \<^verbatim>\<open>*dl_handle_ptr\<close> is never written.\<close>

definition vst2_plugin_open_plugin :: "vst2_plugin_desc \<Rightarrow> nat \<times> ptr option" where
  "vst2_plugin_open_plugin d =
     (let effect_ptr = desc_effect d
      in if effect_ptr = None then (1, effect_ptr) else (0, effect_ptr))"

text \<open>One round of the loop of \<^verbatim>\<open>vst2_plugin_instantiate\<close>: store the instance in
  \<^verbatim>\<open>effects[i]\<close>, then call its dispatcher with \<^verbatim>\<open>effSetSampleRate\<close>.\<close>

definition instantiate_copy ::
  "externals \<Rightarrow> ptr option \<Rightarrow> nat \<Rightarrow> ptr option array \<times> state \<Rightarrow> fault + ptr option array \<times> state" where
  "instantiate_copy ext eff i x =
     (case x of (effects, s) \<Rightarrow>
        if i < length effects then
          (case eff of
             None \<Rightarrow> Inl Undefined_Behaviour
           | Some e \<Rightarrow>
               Inr (effects[i := Some eff],
                    s\<lparr>trace := trace s @ [SetSampleRate e (real (vst2_sample_rate ext))]\<rparr>))
        else Inl Undefined_Behaviour)"

text \<open>\<^verbatim>\<open>vst2_plugin_instantiate\<close>: the result is the returned error code, the
  array \<^verbatim>\<open>effects\<close> and the state.\<close>

definition vst2_plugin_instantiate ::
  "externals \<Rightarrow> ptr option \<Rightarrow> nat \<Rightarrow> ptr option array \<Rightarrow> state
     \<Rightarrow> fault + nat \<times> ptr option array \<times> state" where
  "vst2_plugin_instantiate ext eff copies_n effects s =
     (case for_each [0..<copies_n] (instantiate_copy ext eff) (effects, s) of
        Inl e \<Rightarrow> Inl e
      | Inr (effects', s') \<Rightarrow> Inr (0, effects', s'))"

text \<open>\<^verbatim>\<open>tolower\<close> in the C locale.\<close>

definition to_lower :: "char \<Rightarrow> char" where
  "to_lower c =
     (let n = (of_char c :: nat) in if 65 \<le> n \<and> n \<le> 90 then char_of (n + 32) else c)"

text \<open>What \<^verbatim>\<open>sprintf\<close> prints for \<^verbatim>\<open>%ld\<close> and \<^verbatim>\<open>%d\<close> on a number that is not
  negative.\<close>

fun decimal :: "nat \<Rightarrow> string" where
  "decimal n =
     (if n < 10 then [char_of (48 + n)]
      else decimal (n div 10) @ [char_of (48 + n mod 10)])"

text \<open>The plugin name made "jack worthy": the first seven characters
  (\<^verbatim>\<open>g_strndup (name, 7)\<close>), blanks replaced by underscores, letters in lower case.\<close>

definition jack_worthy :: "string \<Rightarrow> string" where
  "jack_worthy n = map (\<lambda>c. if c = CHR '' '' then CHR ''_'' else to_lower c) (take 7 n)"

text \<open>The port name printed by
  \<^verbatim>\<open>sprintf (port_name, "%s_%ld-%d_%c%ld", ...)\<close>.\<close>

definition aux_port_name :: "vst2_plugin_desc \<Rightarrow> string \<Rightarrow> nat \<Rightarrow> nat \<Rightarrow> nat \<Rightarrow> string" where
  "aux_port_name d vst2_plugin_name vst2_plugin_index copy aux_channel =
     vst2_plugin_name @ ''_'' @ decimal vst2_plugin_index @ ''-'' @ decimal (copy + 1) @ ''_''
       @ (if aux_are_input d then ''i'' else ''o'') @ decimal aux_channel"

text \<open>Modelled from the spec: \<^verbatim>\<open>mlt_log_panic\<close> is declared in
  \<^verbatim>\<open>framework/mlt_log.h\<close>, which is not among the sources. The spec says that fatal
  reporting on an unrecoverable condition terminates the process, and that a failed
  port registration is such a condition: the run ends here.\<close>

definition mlt_log_panic :: "fault + 'a" where
  "mlt_log_panic = Inl Fatal_Log"

text \<open>One round of the loop of \<^verbatim>\<open>vst2_plugin_create_aux_ports\<close>, for the auxiliary
  channel \<open>i + 1\<close>.\<close>

definition register_aux_port ::
  "externals \<Rightarrow> vst2_plugin_desc \<Rightarrow> string \<Rightarrow> nat \<Rightarrow> nat \<Rightarrow> ptr array \<times> state
     \<Rightarrow> fault + ptr array \<times> state" where
  "register_aux_port ext d vst2_plugin_name copy i x =
     (case x of (ports, s) \<Rightarrow>
        (let port_name = aux_port_name d vst2_plugin_name 1 copy (i + 1);
             port = jack_port_register ext (trace s) port_name (aux_are_input d);
             s' = s\<lparr>trace := trace s @ [PortRegister port_name (aux_are_input d)]\<rparr>
         in if i < length ports then
              (case port of
                 None \<Rightarrow> mlt_log_panic
               | Some a \<Rightarrow> Inr (ports[i := Some a], s'))
            else Inl Undefined_Behaviour))"

text \<open>\<^verbatim>\<open>vst2_plugin_create_aux_ports\<close>. The result is the new array
  \<^verbatim>\<open>holder->aux_ports\<close>; the caller stores it in the holder.\<close>

definition vst2_plugin_create_aux_ports ::
  "externals \<Rightarrow> vst2_plugin_desc \<Rightarrow> nat \<Rightarrow> state \<Rightarrow> fault + ptr array \<times> state" where
  "vst2_plugin_create_aux_ports ext d copy s =
     (let (ports_ptr, s1) = g_malloc (aux_channels d) s;
          ports = replicate (aux_channels d) None;
          (name_ptr, s2) = g_malloc (length (take 7 (desc_name d)) + 1) s1;
          vst2_plugin_name = jack_worthy (desc_name d)
      in (case for_each [0..<aux_channels d] (register_aux_port ext d vst2_plugin_name copy)
                (ports, s2) of
            Inl e \<Rightarrow> Inl e
          | Inr (ports', s3) \<Rightarrow> Inr (ports', g_free name_ptr s3)))"

text \<open>The index handed to \<^verbatim>\<open>setParameter\<close>:
  \<^verbatim>\<open>desc->control_port_indicies[i] - (effect->numInputs + effect->numOutputs)\<close>, an
  \<^verbatim>\<open>unsigned long\<close> minus the sum of two \<^verbatim>\<open>int\<close>, converted to \<^verbatim>\<open>int\<close>.\<close>

definition parameter_index :: "externals \<Rightarrow> ptr \<Rightarrow> 64 word \<Rightarrow> 32 word" where
  "parameter_index ext e port_index = ucast (port_index - scast (numInputs ext e + numOutputs ext e))"

text \<open>One round of the first loop of \<^verbatim>\<open>vst2_plugin_init_holder\<close>: initialise the
  fifo of control port \<open>i\<close>, store the default value in the mirror and push it into
  the native instance.\<close>

definition seed_control ::
  "externals \<Rightarrow> vst2_plugin_desc \<Rightarrow> ptr option \<Rightarrow> nat
     \<Rightarrow> lff array \<times> LADSPA_Data array \<times> state \<Rightarrow> fault + lff array \<times> LADSPA_Data array \<times> state" where
  "seed_control ext d eff i x =
     (case x of (fifos, memory, s) \<Rightarrow>
        if i < length fifos \<and> i < length memory \<and> i < length (control_port_indicies d) then
          (let fifos' = fifos[i := Some (lff_init CONTROL_FIFO_SIZE 4)];
               memory' = memory[i := Some (vst2_plugin_desc_get_default_control_value ext d
                           (control_port_indicies d ! i) (vst2_sample_rate ext))]
           in (case (eff, memory' ! i) of
                 (Some e, Some v) \<Rightarrow>
                   Inr (fifos', memory',
                        s\<lparr>trace := trace s @
                           [SetParameter e (parameter_index ext e (control_port_indicies d ! i)) v]\<rparr>)
               | _ \<Rightarrow> Inl Undefined_Behaviour))
        else Inl Undefined_Behaviour)"

text \<open>One round of the loop over \<^verbatim>\<open>desc->status_port_count\<close>, which the code runs
  when \<^verbatim>\<open>holder->control_memory\<close> is not \<^verbatim>\<open>NULL\<close>: it pushes
  \<^verbatim>\<open>control_memory[i]\<close> into the native instance under the index of control port
  \<open>i\<close>.\<close>

definition push_again ::
  "externals \<Rightarrow> vst2_plugin_desc \<Rightarrow> ptr option \<Rightarrow> LADSPA_Data array \<Rightarrow> nat \<Rightarrow> state \<Rightarrow> fault + state" where
  "push_again ext d eff memory i s =
     (if i < length memory \<and> i < length (control_port_indicies d) then
        (case (eff, memory ! i) of
           (Some e, Some v) \<Rightarrow>
             Inr (s\<lparr>trace := trace s @
                    [SetParameter e (parameter_index ext e (control_port_indicies d ! i)) v]\<rparr>)
         | _ \<Rightarrow> Inl Undefined_Behaviour)
      else Inl Undefined_Behaviour)"

text \<open>\<^verbatim>\<open>plugin->holders[copy]\<close> receives the fields of the holder.\<close>

definition store_holder :: "ptr \<Rightarrow> nat \<Rightarrow> vst2_holder \<Rightarrow> state \<Rightarrow> fault + state" where
  "store_holder plugin copy h s =
     (if copy < length (holders (store s plugin)) then
        Inr (s\<lparr>store := (store s)(plugin := (store s plugin)
               \<lparr>holders := (holders (store s plugin))[copy := Some h]\<rparr>)\<rparr>)
      else Inl Undefined_Behaviour)"

text \<open>\<^verbatim>\<open>vst2_plugin_init_holder\<close>. The fields of the holder are collected in local
  values and written to \<^verbatim>\<open>plugin->holders[copy]\<close> at the end; nothing reads the
  holder through another pointer in between. \<open>aux_ports\<close> is assigned only when the
  audio server client is active and the descriptor declares auxiliary channels;
  otherwise the field keeps the value it had.\<close>

definition vst2_plugin_init_holder ::
  "externals \<Rightarrow> ptr \<Rightarrow> nat \<Rightarrow> ptr option \<Rightarrow> state \<Rightarrow> fault + state" where
  "vst2_plugin_init_holder ext plugin copy eff s =
     (let d = desc (store s plugin);
          (fifos_ptr, s1) = g_malloc (control_port_count d) s;
          (memory_ptr, s2) = g_malloc (control_port_count d) s1;
          fifos = replicate (control_port_count d) None;
          memory = replicate (control_port_count d) None
      in (case for_each [0..<control_port_count d] (seed_control ext d eff) (fifos, memory, s2) of
            Inl e \<Rightarrow> Inl e
          | Inr (fifos', memory', s3) \<Rightarrow>
              (let (status_ptr, s4) = g_malloc (status_port_count d) s3;
                   status = replicate (status_port_count d) None
               in (case (if memory' \<noteq> []
                         then for_each [0..<status_port_count d] (push_again ext d eff memory') s4
                         else Inr s4) of
                     Inl e \<Rightarrow> Inl e
                   | Inr s5 \<Rightarrow>
                       (case (if jack_client s5 \<noteq> None \<and> aux_channels (desc (store s5 plugin)) > 0
                              then (case vst2_plugin_create_aux_ports ext
                                           (desc (store s5 plugin)) copy s5 of
                                      Inl e \<Rightarrow> Inl e
                                    | Inr (ports, s6) \<Rightarrow> Inr (Some ports, s6))
                              else Inr (case get_aux_ports s5 plugin copy of
                                          None \<Rightarrow> None
                                        | Some ports \<Rightarrow> ports, s5)) of
                          Inl e \<Rightarrow> Inl e
                        | Inr (ports, s6) \<Rightarrow>
                            store_holder plugin copy
                              \<lparr>effect = eff, ui_control_fifos = fifos', control_memory = memory',
                               status_memory = status, aux_ports = ports\<rparr> s6)))))"

text \<open>One round of the loop over the channels in \<^verbatim>\<open>vst2_plugin_new\<close>.\<close>

definition init_channel :: "externals \<Rightarrow> ptr \<Rightarrow> nat \<Rightarrow> state \<Rightarrow> state" where
  "init_channel ext plugin i s =
     (let (buffer, s1) = g_malloc (vst2_buffer_size ext) s;
          p = store s1 plugin
      in s1\<lparr>store := (store s1)(plugin := p
           \<lparr>audio_output_memory := (audio_output_memory p)[i := Some buffer],
            wet_dry_fifos := (wet_dry_fifos p)[i := Some (lff_init CONTROL_FIFO_SIZE 4)],
            wet_dry_values := (wet_dry_values p)[i := Some 1]\<rparr>)\<rparr>)"

text \<open>One round of the loop over the copies in \<^verbatim>\<open>vst2_plugin_new\<close>:
  \<^verbatim>\<open>vst2_plugin_init_holder (plugin, i, effects[i], vst2_context)\<close>.\<close>

definition init_copy :: "externals \<Rightarrow> ptr \<Rightarrow> ptr option array \<Rightarrow> nat \<Rightarrow> state \<Rightarrow> fault + state" where
  "init_copy ext plugin effects i s =
     (if i < length effects then
        (case effects ! i of
           None \<Rightarrow> Inl Undefined_Behaviour
         | Some eff \<Rightarrow> vst2_plugin_init_holder ext plugin i eff s)
      else Inl Undefined_Behaviour)"

text \<open>\<^verbatim>\<open>vst2_plugin_new\<close>. \<open>channels\<close> is \<^verbatim>\<open>vst2_context->channels\<close>. The
  result is the returned pointer (\<open>None\<close> for \<^verbatim>\<open>NULL\<close>) and the state. The
  branch taken when \<^verbatim>\<open>vst2_plugin_instantiate\<close> reports an error frees
  \<^verbatim>\<open>effects\<close> and calls \<^verbatim>\<open>dlclose\<close>.\<close>

definition vst2_plugin_new ::
  "externals \<Rightarrow> vst2_plugin_desc \<Rightarrow> nat \<Rightarrow> state \<Rightarrow> fault + ptr option \<times> state" where
  "vst2_plugin_new ext d channels s =
     (let (err, effect_ptr) = vst2_plugin_open_plugin d
      in if err \<noteq> 0 then Inr (None, s)
         else
           (let copies_n = vst2_plugin_desc_get_copies ext d channels;
                (effects_ptr, s1) = g_malloc copies_n s
            in (case vst2_plugin_instantiate ext (desc_effect d) copies_n
                      (replicate copies_n None) s1 of
                  Inl e \<Rightarrow> Inl e
                | Inr (err', effects, s2) \<Rightarrow>
                    if err' \<noteq> 0 then
                      Inr (None, (g_free effects_ptr s2)\<lparr>trace := trace s2 @ [DlClose]\<rparr>)
                    else
                      (case g_malloc 1 s2 of
                         (None, s3) \<Rightarrow> Inl Undefined_Behaviour
                       | (Some plugin, s3) \<Rightarrow>
                           (let s4 = s3\<lparr>store := (store s3)(plugin := (store s3 plugin)
                                       \<lparr>desc := d, copies := copies_n, enabled := False,
                                        next_plugin := None, prev_plugin := None,
                                        wet_dry_enabled := False\<rparr>)\<rparr>;
                                (output_ptr, s5) = g_malloc channels s4;
                                (fifos_ptr, s6) = g_malloc channels s5;
                                (values_ptr, s7) = g_malloc channels s6;
                                s8 = s7\<lparr>store := (store s7)(plugin := (store s7 plugin)
                                       \<lparr>audio_output_memory := replicate channels None,
                                        wet_dry_fifos := replicate channels None,
                                        wet_dry_values := replicate channels None\<rparr>)\<rparr>;
                                s9 = fold (init_channel ext plugin) [0..<channels] s8;
                                (holders_ptr, s10) = g_malloc copies_n s9;
                                s11 = s10\<lparr>store := (store s10)(plugin := (store s10 plugin)
                                        \<lparr>holders := replicate copies_n None\<rparr>)\<rparr>
                            in (case for_each [0..<copies_n] (init_copy ext plugin effects) s11 of
                                  Inl e \<Rightarrow> Inl e
                                | Inr s12 \<Rightarrow> Inr (Some plugin, s12)))))))"

section \<open>Notions used in the properties\<close>

text \<open>\<open>path f p xs q\<close>: following the pointer field \<open>f\<close> from \<open>p\<close> visits exactly the
  nodes \<open>xs\<close>, in this order, and arrives at \<open>q\<close>. A state holds the chain \<open>xs\<close> when
  the nodes are pairwise different, the \<^verbatim>\<open>next\<close> pointers lead from the head through
  \<open>xs\<close> to \<^verbatim>\<open>NULL\<close>, and the \<^verbatim>\<open>prev\<close> pointers lead from the tail through the
  reverse of \<open>xs\<close> to \<^verbatim>\<open>NULL\<close>.\<close>

primrec path :: "(ptr \<Rightarrow> ptr option) \<Rightarrow> ptr option \<Rightarrow> ptr list \<Rightarrow> ptr option \<Rightarrow> bool" where
  "path f p [] q = (p = q)"
| "path f p (x # xs) q = (p = Some x \<and> path f (f x) xs q)"

definition dll :: "state \<Rightarrow> ptr list \<Rightarrow> bool" where
  "dll s xs = (distinct xs \<and> path (get_next s) (chain s) xs None
     \<and> path (get_prev s) (chain_end s) (rev xs) None)"

text \<open>The auxiliary port arrays of a plugin, one per copy, in the order of the copies.\<close>

definition aux_ports_of :: "state \<Rightarrow> ptr \<Rightarrow> ptr array option option list" where
  "aux_ports_of s p = map (map_option aux_ports) (holders (store s p))"

text \<open>A plugin object is well formed when its holder array has \<open>copies\<close> entries,
  all of them initialised. A store is well formed when all its objects are, and objects
  of the same descriptor id have the same number of copies (the number comes from the
  descriptor and the channel count of the one context).\<close>

definition wf_plugin :: "vst2_plugin \<Rightarrow> bool" where
  "wf_plugin pl = (length (holders pl) = copies pl \<and> list_all (\<lambda>h. h \<noteq> None) (holders pl))"

definition wf_store :: "state \<Rightarrow> bool" where
  "wf_store s = ((\<forall>p. wf_plugin (store s p)) \<and>
     (\<forall>p q. desc_id (desc (store s p)) = desc_id (desc (store s q))
        \<longrightarrow> copies (store s p) = copies (store s q)))"

text \<open>The chain operations touch the auxiliary ports only while the audio server client is
  active; only then do they need well formed plugin objects.\<close>

definition aux_ready :: "state \<Rightarrow> bool" where
  "aux_ready s = (jack_client s = None \<or> wf_store s)"

text \<open>\<open>only_aux s s'\<close>: the two states differ at most in the \<open>aux_ports\<close> fields of
  holders.\<close>

definition same_but_aux :: "vst2_holder option \<Rightarrow> vst2_holder option \<Rightarrow> bool" where
  "same_but_aux a b = rel_option (\<lambda>x y. y = x\<lparr>aux_ports := aux_ports y\<rparr>) a b"

definition only_aux :: "state \<Rightarrow> state \<Rightarrow> bool" where
  "only_aux s s' = (s' = s\<lparr>store := store s'\<rparr> \<and>
     (\<forall>q. store s' q = (store s q)\<lparr>holders := holders (store s' q)\<rparr> \<and>
          list_all2 same_but_aux (holders (store s q)) (holders (store s' q))))"

text \<open>The nodes of \<open>bs\<close> whose descriptor id is that of \<open>plugin\<close>, in chain order.\<close>

definition same_id :: "state \<Rightarrow> ptr \<Rightarrow> ptr list \<Rightarrow> ptr list" where
  "same_id s plugin bs =
     filter (\<lambda>q. desc_id (desc (store s q)) = desc_id (desc (store s plugin))) bs"

text \<open>Walking the chain: from \<open>p\<close>, follow the pointer field \<open>f\<close> until \<^verbatim>\<open>NULL\<close> and
  collect the nodes met. A walk that never reaches \<^verbatim>\<open>NULL\<close> has the value \<open>None\<close>.\<close>

partial_function (option) walk :: "(ptr \<Rightarrow> ptr option) \<Rightarrow> ptr option \<Rightarrow> ptr list option" where
  "walk f p =
     (case p of
        None \<Rightarrow> Some []
      | Some a \<Rightarrow> Option.bind (walk f (f a)) (\<lambda>xs. Some (a # xs)))"

declare walk.simps [code]

text \<open>A node is linked when the walk from the head along \<^verbatim>\<open>next\<close> meets it. Each
  operation has the precondition the callers have to respect: a node to append, or to
  put in place of another, is not linked; a node to remove, move or replace is.\<close>

datatype operation = Append ptr | Remove ptr | Move ptr bool | Replace ptr ptr

definition linked :: "state \<Rightarrow> ptr \<Rightarrow> bool" where
  "linked s p = (case walk (get_next s) (chain s) of None \<Rightarrow> False | Some xs \<Rightarrow> p \<in> set xs)"

fun precondition :: "state \<Rightarrow> operation \<Rightarrow> bool" where
  "precondition s (Append p) = (\<not> linked s p)"
| "precondition s (Remove p) = linked s p"
| "precondition s (Move p up) = linked s p"
| "precondition s (Replace p q) = (linked s p \<and> \<not> linked s q)"

fun apply_operation :: "state \<Rightarrow> operation \<Rightarrow> state option" where
  "apply_operation s (Append p) = Some (vst2_process_add_plugin s p)"
| "apply_operation s (Remove p) = map_option fst (vst2_process_remove_plugin s p)"
| "apply_operation s (Move p up) = vst2_process_move_plugin s p up"
| "apply_operation s (Replace p q) = map_option fst (vst2_process_change_plugin s p q)"

fun run :: "state \<Rightarrow> operation list \<Rightarrow> state option" where
  "run s [] = Some s"
| "run s (x # ops) = (case apply_operation s x of None \<Rightarrow> None | Some s' \<Rightarrow> run s' ops)"

fun admissible :: "state \<Rightarrow> operation list \<Rightarrow> bool" where
  "admissible s [] = True"
| "admissible s (x # ops) =
     (precondition s x \<and>
      (case apply_operation s x of None \<Rightarrow> True | Some s' \<Rightarrow> admissible s' ops))"

text \<open>The events that are \<^verbatim>\<open>setParameter\<close> calls, and the \<^verbatim>\<open>setParameter\<close>
  calls made between a state and a later one.\<close>

fun is_push :: "event \<Rightarrow> bool" where
  "is_push (SetParameter e i v) = True"
| "is_push _ = False"

definition pushes_since :: "state \<Rightarrow> state \<Rightarrow> event list" where
  "pushes_since s s' = filter is_push (drop (length (trace s)) (trace s'))"

text \<open>The default value of control port \<open>i\<close> at the current sample rate, and the
  call that pushes it into the native instance \<open>e\<close>.\<close>

definition default_of :: "externals \<Rightarrow> vst2_plugin_desc \<Rightarrow> nat \<Rightarrow> LADSPA_Data" where
  "default_of ext d i =
     vst2_plugin_desc_get_default_control_value ext d (control_port_indicies d ! i)
       (vst2_sample_rate ext)"

definition push_of :: "externals \<Rightarrow> vst2_plugin_desc \<Rightarrow> ptr \<Rightarrow> nat \<Rightarrow> event" where
  "push_of ext d e i =
     SetParameter e (parameter_index ext e (control_port_indicies d ! i)) (default_of ext d i)"

text \<open>\<open>bookkeeping_only s s'\<close>: between the two states only blocks were allocated or
  freed and calls other than \<^verbatim>\<open>setParameter\<close> were made. \<open>quiet s s'\<close>: the
  processing context and the store of plugin objects are the same.\<close>

definition bookkeeping_only :: "state \<Rightarrow> state \<Rightarrow> bool" where
  "bookkeeping_only s s' =
     (chain s' = chain s \<and> chain_end s' = chain_end s \<and> jack_client s' = jack_client s
      \<and> store s' = store s \<and> (\<exists>evs. trace s' = trace s @ evs \<and> filter is_push evs = []))"

definition quiet :: "state \<Rightarrow> state \<Rightarrow> bool" where
  "quiet s s' =
     (chain s' = chain s \<and> chain_end s' = chain_end s \<and> jack_client s' = jack_client s
      \<and> store s' = store s)"

section \<open>Example data\<close>

text \<open>The example used to instantiate the theorems: plugins 1, 2 and 3 are linked in this
  order, have the descriptor id 7 and two copies each; plugin 4 is of another type and
  not linked. The audio server is active.\<close>

definition example_plugin :: "nat \<Rightarrow> ptr list \<Rightarrow> ptr option \<Rightarrow> ptr option \<Rightarrow> vst2_plugin" where
  "example_plugin i ports p n =
     \<lparr>desc = \<lparr>desc_id = i, desc_name = ''Delay'', desc_effect = Some 100, aux_channels = 1,
         aux_are_input = True, control_port_count = 0, control_port_indicies = [],
         status_port_count = 0\<rparr>,
      enabled = False, copies = length ports,
      holders = map (\<lambda>a. Some \<lparr>effect = Some 100, ui_control_fifos = [], control_memory = [],
         status_memory = [], aux_ports = Some [Some a]\<rparr>) ports,
      audio_output_memory = [], wet_dry_enabled = False, wet_dry_values = [],
      wet_dry_fifos = [], next_plugin = n, prev_plugin = p\<rparr>"

definition example_store :: "ptr \<Rightarrow> vst2_plugin" where
  "example_store =
     (\<lambda>_. example_plugin 0 [] None None)
       (1 := example_plugin 7 [11, 12] None (Some 2),
        2 := example_plugin 7 [21, 22] (Some 1) (Some 3),
        3 := example_plugin 7 [31, 32] (Some 2) None,
        4 := example_plugin 8 [41] None None)"

definition example_rack :: state where
  "example_rack =
     \<lparr>chain = Some 1, chain_end = Some 3, jack_client = Some 50, store = example_store,
      live = [1, 2, 3, 4], brk = 5, trace = []\<rparr>"

definition empty_rack :: state where
  "empty_rack = example_rack\<lparr>chain := None, chain_end := None\<rparr>"

text \<open>A sequence of operations on the empty rack that obeys the preconditions.\<close>

definition example_ops :: "operation list" where
  "example_ops = [Append 1, Append 2, Append 3, Move 3 True, Replace 1 4, Remove 2]"

text \<open>An environment, a descriptor with one control port and one status port, and a
  rack in which plugin 4 carries this descriptor.\<close>

definition example_externals :: externals where
  "example_externals =
     \<lparr>vst2_plugin_desc_get_copies = (\<lambda>d channels. channels),
      vst2_plugin_desc_get_default_control_value = (\<lambda>d port rate. 1 / 2),
      vst2_sample_rate = 48000,
      vst2_buffer_size = 256,
      numInputs = (\<lambda>e. 1),
      numOutputs = (\<lambda>e. 1),
      jack_port_register = (\<lambda>tr port_name input. Some (length tr))\<rparr>"

definition example_desc :: vst2_plugin_desc where
  "example_desc =
     \<lparr>desc_id = 9, desc_name = ''Gain'', desc_effect = Some 100, aux_channels = 1,
      aux_are_input = False, control_port_count = 1, control_port_indicies = [4],
      status_port_count = 1\<rparr>"

definition seed_rack :: state where
  "seed_rack = example_rack\<lparr>store := (store example_rack)
     (4 := (store example_rack 4)\<lparr>desc := example_desc\<rparr>)\<rparr>"

section \<open>Lemmas\<close>

subsection \<open>Pointer paths and the chain operations\<close>

lemma path_append: "path f p (xs @ ys) q = (\<exists>r. path f p xs r \<and> path f r ys q)"
  by (induction xs arbitrary: p) auto

lemma path_snoc: "path f p (xs @ [x]) q = (path f p xs (Some x) \<and> f x = q)"
  by (auto simp: path_append)

lemma path_upd: "x \<notin> set xs \<Longrightarrow> path (f(x := v)) p xs q = path f p xs q"
  by (induction xs arbitrary: p) auto

lemma get_set [simp]:
  "get_next (set_next p v s) = (get_next s)(p := v)"
  "get_next (set_prev p v s) = get_next s"
  "get_prev (set_prev p v s) = (get_prev s)(p := v)"
  "get_prev (set_next p v s) = get_prev s"
  "chain (set_next p v s) = chain s"
  "chain (set_prev p v s) = chain s"
  "chain_end (set_next p v s) = chain_end s"
  "chain_end (set_prev p v s) = chain_end s"
  "get_next (s\<lparr>chain := c\<rparr>) = get_next s"
  "get_prev (s\<lparr>chain := c\<rparr>) = get_prev s"
  "get_next (s\<lparr>chain_end := c\<rparr>) = get_next s"
  "get_prev (s\<lparr>chain_end := c\<rparr>) = get_prev s"
  by (auto simp: get_next_def get_prev_def set_next_def set_prev_def fun_eq_iff)

lemma dll_add:
  assumes "dll s xs" "plugin \<notin> set xs"
  shows "dll (vst2_process_add_plugin s plugin) (xs @ [plugin])"
proof (cases xs rule: rev_cases)
  case Nil
  with assms show ?thesis
    by (auto simp: dll_def vst2_process_add_plugin_def Let_def)
next
  case (snoc ys y)
  with assms show ?thesis
    by (auto simp: dll_def vst2_process_add_plugin_def Let_def path_append path_upd)
qed

lemma dll_unlink:
  assumes "dll s (as @ plugin # bs)"
  shows "dll (unlink_plugin s plugin) (as @ bs)"
proof -
  show ?thesis
  proof (cases as rule: rev_cases)
    case Nil
    note A = this
    show ?thesis
    proof (cases bs)
      case Nil
      with A assms show ?thesis by (auto simp: dll_def unlink_plugin_def Let_def path_snoc path_upd)
    next
      case (Cons b bs')
      with A assms show ?thesis by (auto simp: dll_def unlink_plugin_def Let_def path_snoc path_upd path_append)
    qed
  next
    case (snoc as' a)
    note A = this
    show ?thesis
    proof (cases bs)
      case Nil
      with A assms show ?thesis by (auto simp: dll_def unlink_plugin_def Let_def path_snoc path_upd path_append)
    next
      case (Cons b bs')
      with A assms show ?thesis by (auto simp: dll_def unlink_plugin_def Let_def path_snoc path_upd path_append)
    qed
  qed
qed

lemma dll_move_up:
  assumes "dll s (as @ p # plugin # bs)"
  shows "dll (move_up s plugin (get_prev s p) p (get_next s plugin)) (as @ plugin # p # bs)"
proof (cases as rule: rev_cases)
  case Nil
  note A = this
  show ?thesis
  proof (cases bs)
    case Nil
    with A assms show ?thesis by (auto simp: dll_def move_up_def Let_def path_upd path_append)
  next
    case (Cons b bs')
    with A assms show ?thesis by (auto simp: dll_def move_up_def Let_def path_upd path_append)
  qed
next
  case (snoc as' a)
  note A = this
  show ?thesis
  proof (cases bs)
    case Nil
    with A assms show ?thesis by (auto simp: dll_def move_up_def Let_def path_upd path_append)
  next
    case (Cons b bs')
    with A assms show ?thesis by (auto simp: dll_def move_up_def Let_def path_upd path_append)
  qed
qed

lemma dll_move_down:
  assumes "dll s (as @ plugin # n # bs)"
  shows "dll (move_down s plugin (get_prev s plugin) n (get_next s n)) (as @ n # plugin # bs)"
proof (cases as rule: rev_cases)
  case Nil
  note A = this
  show ?thesis
  proof (cases bs)
    case Nil
    with A assms show ?thesis by (auto simp: dll_def move_down_def Let_def path_upd path_append)
  next
    case (Cons b bs')
    with A assms show ?thesis by (auto simp: dll_def move_down_def Let_def path_upd path_append)
  qed
next
  case (snoc as' a)
  note A = this
  show ?thesis
  proof (cases bs)
    case Nil
    with A assms show ?thesis by (auto simp: dll_def move_down_def Let_def path_upd path_append)
  next
    case (Cons b bs')
    with A assms show ?thesis by (auto simp: dll_def move_down_def Let_def path_upd path_append)
  qed
qed

lemma dll_splice:
  assumes "dll s (as @ plugin # bs)" "new_plugin \<notin> set (as @ plugin # bs)"
  shows "dll (splice_plugin s plugin new_plugin) (as @ new_plugin # bs)"
proof (cases as rule: rev_cases)
  case Nil
  note A = this
  show ?thesis
  proof (cases bs)
    case Nil
    with A assms show ?thesis by (auto simp: dll_def splice_plugin_def Let_def path_upd path_append)
  next
    case (Cons b bs')
    with A assms show ?thesis by (auto simp: dll_def splice_plugin_def Let_def path_upd path_append)
  qed
next
  case (snoc as' a)
  note A = this
  show ?thesis
  proof (cases bs)
    case Nil
    with A assms show ?thesis by (auto simp: dll_def splice_plugin_def Let_def path_upd path_append)
  next
    case (Cons b bs')
    with A assms show ?thesis by (auto simp: dll_def splice_plugin_def Let_def path_upd path_append)
  qed
qed

subsection \<open>States that differ in auxiliary ports only\<close>

lemma same_but_aux_refl: "same_but_aux a a"
  by (cases a) (simp_all add: same_but_aux_def)

lemma same_but_aux_trans: "same_but_aux a b \<Longrightarrow> same_but_aux b c \<Longrightarrow> same_but_aux a c"
  apply (cases a; cases b; cases c; simp add: same_but_aux_def)
  subgoal for x y z
    by (cases x; cases y; cases z) simp
  done

lemma only_aux_refl: "only_aux s s"
  by (simp add: only_aux_def list_all2_refl same_but_aux_refl)

lemma only_aux_trans:
  assumes "only_aux s s1" "only_aux s1 s2"
  shows "only_aux s s2"
proof -
  have a: "s2 = s\<lparr>store := store s2\<rparr>"
  proof -
    from assms have "s1 = s\<lparr>store := store s1\<rparr>" "s2 = s1\<lparr>store := store s2\<rparr>"
      by (simp_all add: only_aux_def)
    then have "s2 = (s\<lparr>store := store s1\<rparr>)\<lparr>store := store s2\<rparr>" by simp
    then show ?thesis by simp
  qed
  have b: "store s2 q = (store s q)\<lparr>holders := holders (store s2 q)\<rparr>
      \<and> list_all2 same_but_aux (holders (store s q)) (holders (store s2 q))" for q
  proof -
    from assms have 1: "store s1 q = (store s q)\<lparr>holders := holders (store s1 q)\<rparr>"
      and 2: "store s2 q = (store s1 q)\<lparr>holders := holders (store s2 q)\<rparr>"
      and 3: "list_all2 same_but_aux (holders (store s q)) (holders (store s1 q))"
      and 4: "list_all2 same_but_aux (holders (store s1 q)) (holders (store s2 q))"
      by (simp_all add: only_aux_def)
    from 1 2 have "store s2 q = ((store s q)\<lparr>holders := holders (store s1 q)\<rparr>)\<lparr>holders := holders (store s2 q)\<rparr>"
      by simp
    then have "store s2 q = (store s q)\<lparr>holders := holders (store s2 q)\<rparr>" by simp
    moreover from 3 4 have "list_all2 same_but_aux (holders (store s q)) (holders (store s2 q))"
      by (rule list_all2_trans [rotated]) (rule same_but_aux_trans)
    ultimately show ?thesis by simp
  qed
  from a b show ?thesis unfolding only_aux_def by blast
qed

lemma only_aux_fields:
  assumes "only_aux s s'"
  shows "chain s' = chain s" "chain_end s' = chain_end s" "jack_client s' = jack_client s"
    "live s' = live s" "brk s' = brk s" "trace s' = trace s"
    "get_next s' = get_next s" "get_prev s' = get_prev s"
    "desc (store s' q) = desc (store s q)" "copies (store s' q) = copies (store s q)"
    "length (holders (store s' q)) = length (holders (store s q))"
proof -
  from assms have a: "s' = s\<lparr>store := store s'\<rparr>"
    and b: "\<And>q. store s' q = (store s q)\<lparr>holders := holders (store s' q)\<rparr>"
    and c: "\<And>q. list_all2 same_but_aux (holders (store s q)) (holders (store s' q))"
    by (simp_all add: only_aux_def)
  from a show "chain s' = chain s" by (metis state.select_convs(1) state.surjective state.update_convs(4))
  from a show "chain_end s' = chain_end s" by (metis state.select_convs(2) state.surjective state.update_convs(4))
  from a show "jack_client s' = jack_client s" by (metis state.select_convs(3) state.surjective state.update_convs(4))
  from a show "live s' = live s" by (metis state.select_convs(5) state.surjective state.update_convs(4))
  from a show "brk s' = brk s" by (metis state.select_convs(6) state.surjective state.update_convs(4))
  from a show "trace s' = trace s" by (metis state.select_convs(7) state.surjective state.update_convs(4))
  have n: "next_plugin (store s' p) = next_plugin (store s p)" for p
    using b [of p] by (metis vst2_plugin.select_convs(9) vst2_plugin.surjective vst2_plugin.update_convs(4))
  have pv: "prev_plugin (store s' p) = prev_plugin (store s p)" for p
    using b [of p] by (metis vst2_plugin.select_convs(10) vst2_plugin.surjective vst2_plugin.update_convs(4))
  from n show "get_next s' = get_next s" by (simp add: get_next_def fun_eq_iff)
  from pv show "get_prev s' = get_prev s" by (simp add: get_prev_def fun_eq_iff)
  show "desc (store s' q) = desc (store s q)"
    using b [of q] by (metis vst2_plugin.select_convs(1) vst2_plugin.surjective vst2_plugin.update_convs(4))
  show "copies (store s' q) = copies (store s q)"
    using b [of q] by (metis vst2_plugin.select_convs(3) vst2_plugin.surjective vst2_plugin.update_convs(4))
  show "length (holders (store s' q)) = length (holders (store s q))"
    using c [of q] by (simp add: list_all2_lengthD)
qed

lemma wf_plugin_cell:
  "wf_plugin pl \<Longrightarrow> c < copies pl \<Longrightarrow> \<exists>h. holders pl ! c = Some h"
  by (auto simp: wf_plugin_def list_all_length)

lemma only_aux_wf_plugin:
  assumes "only_aux s s'"
  shows "wf_plugin (store s' q) = wf_plugin (store s q)"
proof -
  from assms have c: "list_all2 same_but_aux (holders (store s q)) (holders (store s' q))"
    by (simp add: only_aux_def)
  have "list_all (\<lambda>h. h \<noteq> None) (holders (store s' q)) = list_all (\<lambda>h. h \<noteq> None) (holders (store s q))"
    using c by (induction rule: list_all2_induct) (auto simp: same_but_aux_def elim: option.rel_cases)
  then show ?thesis
    using only_aux_fields(10,11) [OF assms, of q] by (simp add: wf_plugin_def)
qed

lemma only_aux_wf_store: "only_aux s s' \<Longrightarrow> wf_store s' = wf_store s"
  by (simp add: wf_store_def only_aux_wf_plugin only_aux_fields)

lemma only_aux_aux_ready: "only_aux s s' \<Longrightarrow> aux_ready s' = aux_ready s"
  by (simp add: aux_ready_def only_aux_wf_store only_aux_fields)

lemma only_aux_dll: "only_aux s s' \<Longrightarrow> dll s' xs = dll s xs"
  by (simp add: dll_def only_aux_fields)

subsection \<open>The swap and the loop over the downstream nodes\<close>

lemma swap_copy_spec:
  assumes "plugin \<noteq> other" "c < length (holders (store s plugin))" "c < length (holders (store s other))"
    "holders (store s plugin) ! c \<noteq> None" "holders (store s other) ! c \<noteq> None"
  shows "\<exists>s'. swap_copy s plugin other c = Some s' \<and> only_aux s s'
     \<and> aux_ports_of s' plugin = (aux_ports_of s plugin)[c := aux_ports_of s other ! c]
     \<and> aux_ports_of s' other = (aux_ports_of s other)[c := aux_ports_of s plugin ! c]
     \<and> (\<forall>q. q \<noteq> plugin \<and> q \<noteq> other \<longrightarrow> store s' q = store s q)"
proof -
  from assms obtain hp ho where hp: "holders (store s plugin) ! c = Some hp"
    and ho: "holders (store s other) ! c = Some ho" by auto
  define s1 where "s1 = s\<lparr>store := (store s)(other := (store s other)
               \<lparr>holders := (holders (store s other))[c := Some (ho\<lparr>aux_ports := aux_ports hp\<rparr>)]\<rparr>)\<rparr>"
  define s2 where "s2 = s1\<lparr>store := (store s1)(plugin := (store s1 plugin)
               \<lparr>holders := (holders (store s1 plugin))[c := Some (hp\<lparr>aux_ports := aux_ports ho\<rparr>)]\<rparr>)\<rparr>"
  have 1: "swap_copy s plugin other c = Some s2"
    using assms hp ho by (simp add: swap_copy_def get_aux_ports_def set_aux_ports_def s1_def s2_def)
  have st: "store s2 = (store s)(other := (store s other)
               \<lparr>holders := (holders (store s other))[c := Some (ho\<lparr>aux_ports := aux_ports hp\<rparr>)]\<rparr>,
              plugin := (store s plugin)
               \<lparr>holders := (holders (store s plugin))[c := Some (hp\<lparr>aux_ports := aux_ports ho\<rparr>)]\<rparr>)"
    using assms(1) by (simp add: s1_def s2_def)
  have 2: "only_aux s s2"
    unfolding only_aux_def
  proof (intro conjI allI)
    show "s2 = s\<lparr>store := store s2\<rparr>" by (simp add: s1_def s2_def)
  next
    fix q show "store s2 q = (store s q)\<lparr>holders := holders (store s2 q)\<rparr>"
      by (simp add: st)
  next
    fix q show "list_all2 same_but_aux (holders (store s q)) (holders (store s2 q))"
      using hp ho assms(2,3)
      by (auto simp: st list_all2_conv_all_nth nth_list_update same_but_aux_refl)
        (simp_all add: same_but_aux_def)
  qed
  have 3: "aux_ports_of s2 plugin = (aux_ports_of s plugin)[c := aux_ports_of s other ! c]"
    using assms(2,3) hp ho by (simp add: aux_ports_of_def st map_update)
  have 4: "aux_ports_of s2 other = (aux_ports_of s other)[c := aux_ports_of s plugin ! c]"
    using assms(1,2,3) hp ho by (simp add: aux_ports_of_def st map_update)
  have 5: "\<forall>q. q \<noteq> plugin \<and> q \<noteq> other \<longrightarrow> store s2 q = store s q"
    by (simp add: st)
  from 1 2 3 4 5 show ?thesis by blast
qed

lemma swap_from_spec:
  assumes "plugin \<noteq> other" "wf_plugin (store s plugin)" "wf_plugin (store s other)"
    "copies (store s plugin) = copies (store s other)" "k \<le> copies (store s plugin)"
  shows "\<exists>s'. swap_from s plugin other k = Some s' \<and> only_aux s s'
     \<and> aux_ports_of s' plugin = take k (aux_ports_of s plugin) @ drop k (aux_ports_of s other)
     \<and> aux_ports_of s' other = take k (aux_ports_of s other) @ drop k (aux_ports_of s plugin)
     \<and> (\<forall>q. q \<noteq> plugin \<and> q \<noteq> other \<longrightarrow> store s' q = store s q)"
  using assms
proof (induction "copies (store s plugin) - k" arbitrary: s k)
  case 0
  then have k: "k = copies (store s plugin)" by simp
  have l: "length (aux_ports_of s plugin) = k" "length (aux_ports_of s other) = k"
    using 0 k by (simp_all add: aux_ports_of_def wf_plugin_def)
  have "swap_from s plugin other k = Some s" using k by simp
  with l show ?case by (simp add: only_aux_refl)
next
  case (Suc n)
  then have k: "k < copies (store s plugin)" by simp
  have len: "length (holders (store s plugin)) = copies (store s plugin)"
    "length (holders (store s other)) = copies (store s plugin)"
    using Suc.prems by (simp_all add: wf_plugin_def)
  from wf_plugin_cell [OF Suc.prems(2) k] wf_plugin_cell [OF Suc.prems(3)] k Suc.prems(4)
  have cells: "holders (store s plugin) ! k \<noteq> None" "holders (store s other) ! k \<noteq> None"
    by auto
  from swap_copy_spec [OF Suc.prems(1) _ _ cells] k len
  obtain s1 where s1: "swap_copy s plugin other k = Some s1" "only_aux s s1"
    "aux_ports_of s1 plugin = (aux_ports_of s plugin)[k := aux_ports_of s other ! k]"
    "aux_ports_of s1 other = (aux_ports_of s other)[k := aux_ports_of s plugin ! k]"
    "\<forall>q. q \<noteq> plugin \<and> q \<noteq> other \<longrightarrow> store s1 q = store s q"
    by auto
  note f = only_aux_fields [OF s1(2)]
  have "\<exists>s'. swap_from s1 plugin other (Suc k) = Some s' \<and> only_aux s1 s'
     \<and> aux_ports_of s' plugin = take (Suc k) (aux_ports_of s1 plugin) @ drop (Suc k) (aux_ports_of s1 other)
     \<and> aux_ports_of s' other = take (Suc k) (aux_ports_of s1 other) @ drop (Suc k) (aux_ports_of s1 plugin)
     \<and> (\<forall>q. q \<noteq> plugin \<and> q \<noteq> other \<longrightarrow> store s' q = store s1 q)"
  proof (rule Suc.hyps(1))
    show "n = copies (store s1 plugin) - Suc k" using Suc.hyps(2) f(10) [of plugin] by simp
    show "plugin \<noteq> other" by fact
    show "wf_plugin (store s1 plugin)" "wf_plugin (store s1 other)"
      using Suc.prems by (simp_all add: only_aux_wf_plugin [OF s1(2)])
    show "copies (store s1 plugin) = copies (store s1 other)" using Suc.prems f(10) by simp
    show "Suc k \<le> copies (store s1 plugin)" using k f(10) [of plugin] by simp
  qed
  then obtain s' where s': "swap_from s1 plugin other (Suc k) = Some s'" "only_aux s1 s'"
    "aux_ports_of s' plugin = take (Suc k) (aux_ports_of s1 plugin) @ drop (Suc k) (aux_ports_of s1 other)"
    "aux_ports_of s' other = take (Suc k) (aux_ports_of s1 other) @ drop (Suc k) (aux_ports_of s1 plugin)"
    "\<forall>q. q \<noteq> plugin \<and> q \<noteq> other \<longrightarrow> store s' q = store s1 q"
    by blast
  have lp: "k < length (aux_ports_of s plugin)" "k < length (aux_ports_of s other)"
    using k len by (simp_all add: aux_ports_of_def)
  have "swap_from s plugin other k = Some s'"
    using k s1(1) s'(1) by simp
  moreover have "only_aux s s'" using s1(2) s'(2) by (rule only_aux_trans)
  moreover have "aux_ports_of s' plugin = take k (aux_ports_of s plugin) @ drop k (aux_ports_of s other)"
    using lp by (simp add: s'(3) s1(3,4) take_Suc_conv_app_nth Cons_nth_drop_Suc)
  moreover have "aux_ports_of s' other = take k (aux_ports_of s other) @ drop k (aux_ports_of s plugin)"
    using lp by (simp add: s'(4) s1(3,4) take_Suc_conv_app_nth Cons_nth_drop_Suc)
  moreover have "\<forall>q. q \<noteq> plugin \<and> q \<noteq> other \<longrightarrow> store s' q = store s q"
    using s1(5) s'(5) by simp
  ultimately show ?case by blast
qed

lemma swap_spec:
  assumes "plugin \<noteq> other" "wf_plugin (store s plugin)" "wf_plugin (store s other)"
    "copies (store s plugin) = copies (store s other)"
  shows "\<exists>s'. vst2_plugin_swap_aux_ports s plugin other = Some s' \<and> only_aux s s'
     \<and> aux_ports_of s' plugin = aux_ports_of s other
     \<and> aux_ports_of s' other = aux_ports_of s plugin
     \<and> (\<forall>q. q \<noteq> plugin \<and> q \<noteq> other \<longrightarrow> store s' q = store s q)"
  using swap_from_spec [OF assms, of 0] by (simp add: vst2_plugin_swap_aux_ports_def)

lemma only_aux_same_id: "only_aux s s' \<Longrightarrow> same_id s' plugin bs = same_id s plugin bs"
  by (simp add: same_id_def only_aux_fields)

lemma aux_loop_None [simp]: "aux_loop s plugin None = Some s"
  by (simp add: aux_loop.simps)

lemma aux_loop_Some:
  "aux_loop s plugin (Some ot) =
     (if desc_id (desc (store s ot)) = desc_id (desc (store s plugin)) then
        (case vst2_plugin_swap_aux_ports s plugin ot of
           None \<Rightarrow> None
         | Some s' \<Rightarrow> aux_loop s' plugin (get_next s' ot))
      else aux_loop s plugin (get_next s ot))"
  by (subst aux_loop.simps) simp

lemma aux_loop_spec:
  assumes "path (get_next s) other bs None" "plugin \<notin> set bs" "distinct bs" "wf_store s"
  shows "\<exists>s'. aux_loop s plugin other = Some s' \<and> only_aux s s'
     \<and> map (aux_ports_of s') (same_id s plugin bs @ [plugin])
         = map (aux_ports_of s) (plugin # same_id s plugin bs)
     \<and> (\<forall>q. q \<noteq> plugin \<and> q \<notin> set (same_id s plugin bs) \<longrightarrow> store s' q = store s q)"
  using assms
proof (induction bs arbitrary: s other)
  case Nil
  then show ?case by (simp add: same_id_def only_aux_refl)
next
  case (Cons b bs)
  from Cons.prems have other: "other = Some b" and p: "path (get_next s) (get_next s b) bs None"
    and nb: "plugin \<noteq> b" "plugin \<notin> set bs" "b \<notin> set bs" "distinct bs"
    by auto
  show ?case
  proof (cases "desc_id (desc (store s b)) = desc_id (desc (store s plugin))")
    case False
    from Cons.IH [OF p nb(2) nb(4) Cons.prems(4)] False other
    show ?thesis by (simp add: aux_loop_Some same_id_def)
  next
    case True
    from Cons.prems(4) have wfa: "\<forall>p. wf_plugin (store s p)"
      and wfb: "\<forall>p q. desc_id (desc (store s p)) = desc_id (desc (store s q))
        \<longrightarrow> copies (store s p) = copies (store s q)"
      unfolding wf_store_def by blast+
    from wfa have wf1: "wf_plugin (store s plugin)" and wf2: "wf_plugin (store s b)"
      by blast+
    from wfb True have wf3: "copies (store s plugin) = copies (store s b)"
      by metis
    note wf = wf1 wf2 wf3
    from swap_spec [OF nb(1) wf] obtain s1 where s1:
      "vst2_plugin_swap_aux_ports s plugin b = Some s1" "only_aux s s1"
      "aux_ports_of s1 plugin = aux_ports_of s b" "aux_ports_of s1 b = aux_ports_of s plugin"
      "\<forall>q. q \<noteq> plugin \<and> q \<noteq> b \<longrightarrow> store s1 q = store s q"
      by blast
    note f = only_aux_fields [OF s1(2)]
    have p1: "path (get_next s1) (get_next s1 b) bs None" using p by (simp add: f)
    have wf1: "wf_store s1" using Cons.prems(4) by (simp add: only_aux_wf_store [OF s1(2)])
    from Cons.IH [OF p1 nb(2) nb(4) wf1] obtain s' where s':
      "aux_loop s1 plugin (get_next s1 b) = Some s'" "only_aux s1 s'"
      "map (aux_ports_of s') (same_id s1 plugin bs @ [plugin])
         = map (aux_ports_of s1) (plugin # same_id s1 plugin bs)"
      "\<forall>q. q \<noteq> plugin \<and> q \<notin> set (same_id s1 plugin bs) \<longrightarrow> store s' q = store s1 q"
      by blast
    have ms: "same_id s1 plugin bs = same_id s plugin bs" by (rule only_aux_same_id [OF s1(2)])
    have sub: "set (same_id s plugin bs) \<subseteq> set bs" by (auto simp: same_id_def)
    have msb: "same_id s plugin (b # bs) = b # same_id s plugin bs"
      using True by (simp add: same_id_def)
    have 1: "aux_loop s plugin other = Some s'"
      using other True s1(1) s'(1) by (simp add: aux_loop_Some)
    have 2: "only_aux s s'" using s1(2) s'(2) by (rule only_aux_trans)
    have b': "store s' b = store s1 b" using s'(4) nb sub ms by auto
    have old: "map (aux_ports_of s1) (same_id s plugin bs) = map (aux_ports_of s) (same_id s plugin bs)"
    proof (rule map_cong [OF refl])
      fix q assume "q \<in> set (same_id s plugin bs)"
      with sub nb have "q \<noteq> plugin \<and> q \<noteq> b" by auto
      with s1(5) show "aux_ports_of s1 q = aux_ports_of s q" by (simp add: aux_ports_of_def)
    qed
    have 3: "map (aux_ports_of s') (same_id s plugin (b # bs) @ [plugin])
         = map (aux_ports_of s) (plugin # same_id s plugin (b # bs))"
    proof -
      have "aux_ports_of s' b = aux_ports_of s plugin"
        using b' s1(4) by (simp add: aux_ports_of_def)
      moreover have "map (aux_ports_of s') (same_id s plugin bs @ [plugin])
          = aux_ports_of s b # map (aux_ports_of s) (same_id s plugin bs)"
        using s'(3) by (simp add: ms s1(3) old del: map_append)
      ultimately show ?thesis by (simp add: msb)
    qed
    have 4: "\<forall>q. q \<noteq> plugin \<and> q \<notin> set (same_id s plugin (b # bs)) \<longrightarrow> store s' q = store s q"
      using s'(4) s1(5) by (simp add: msb ms)
    from 1 2 3 4 show ?thesis by blast
  qed
qed

subsection \<open>Walks, links and frames\<close>

lemma walk_None [simp]: "walk f None = Some []"
  by (subst walk.simps) simp

lemma walk_Some: "walk f (Some a) = Option.bind (walk f (f a)) (\<lambda>xs. Some (a # xs))"
  by (subst walk.simps) simp

lemma path_walk: "path f p xs None \<Longrightarrow> walk f p = Some xs"
  by (induction xs arbitrary: p) (auto simp: walk_Some)

lemma dll_links:
  assumes "dll s (as @ x # bs)"
  shows "get_next s x = (case bs of [] \<Rightarrow> None | b # _ \<Rightarrow> Some b)"
    and "get_prev s x = (if as = [] then None else Some (last as))"
proof -
  from assms show "get_next s x = (case bs of [] \<Rightarrow> None | b # _ \<Rightarrow> Some b)"
    by (cases bs) (auto simp: dll_def path_append)
  from assms show "get_prev s x = (if as = [] then None else Some (last as))"
    by (cases as rule: rev_cases) (auto simp: dll_def path_append)
qed

lemma dll_ends:
  assumes "dll s xs"
  shows "chain s = (case xs of [] \<Rightarrow> None | x # _ \<Rightarrow> Some x)"
    and "chain_end s = (if xs = [] then None else Some (last xs))"
proof -
  from assms show "chain s = (case xs of [] \<Rightarrow> None | x # _ \<Rightarrow> Some x)"
    by (cases xs) (auto simp: dll_def)
  from assms show "chain_end s = (if xs = [] then None else Some (last xs))"
    by (cases xs rule: rev_cases) (auto simp: dll_def)
qed

lemma frame_set [simp]:
  "jack_client (set_next p v s) = jack_client s"
  "jack_client (set_prev p v s) = jack_client s"
  "desc (store (set_next p v s) q) = desc (store s q)"
  "desc (store (set_prev p v s) q) = desc (store s q)"
  "copies (store (set_next p v s) q) = copies (store s q)"
  "copies (store (set_prev p v s) q) = copies (store s q)"
  "holders (store (set_next p v s) q) = holders (store s q)"
  "holders (store (set_prev p v s) q) = holders (store s q)"
  by (simp_all add: set_next_def set_prev_def)

lemma wf_store_set [simp]:
  "wf_store (set_next p v s) = wf_store s"
  "wf_store (set_prev p v s) = wf_store s"
  "wf_store (s\<lparr>chain := c\<rparr>) = wf_store s"
  "wf_store (s\<lparr>chain_end := c\<rparr>) = wf_store s"
  by (simp_all add: wf_store_def wf_plugin_def)

lemma aux_ports_of_set [simp]:
  "aux_ports_of (set_next p v s) = aux_ports_of s"
  "aux_ports_of (set_prev p v s) = aux_ports_of s"
  "aux_ports_of (s\<lparr>chain := c\<rparr>) = aux_ports_of s"
  "aux_ports_of (s\<lparr>chain_end := c\<rparr>) = aux_ports_of s"
  by (simp_all add: aux_ports_of_def fun_eq_iff)

lemma wf_store_ops [simp]:
  "wf_store (vst2_process_add_plugin s plugin) = wf_store s"
  "wf_store (unlink_plugin s plugin) = wf_store s"
  "wf_store (splice_plugin s plugin new_plugin) = wf_store s"
  "wf_store (move_up s plugin pp p n) = wf_store s"
  "wf_store (move_down s plugin pq n' nn) = wf_store s"
  by (simp_all add: vst2_process_add_plugin_def unlink_plugin_def splice_plugin_def
      move_up_def move_down_def Let_def split: option.splits)

lemma jack_client_ops [simp]:
  "jack_client (vst2_process_add_plugin s plugin) = jack_client s"
  "jack_client (unlink_plugin s plugin) = jack_client s"
  "jack_client (splice_plugin s plugin new_plugin) = jack_client s"
  "jack_client (move_up s plugin pp p n) = jack_client s"
  "jack_client (move_down s plugin pq n' nn) = jack_client s"
  by (simp_all add: vst2_process_add_plugin_def unlink_plugin_def splice_plugin_def
      move_up_def move_down_def Let_def split: option.splits)

lemma aux_ready_ops [simp]:
  "aux_ready (vst2_process_add_plugin s plugin) = aux_ready s"
  "aux_ready (unlink_plugin s plugin) = aux_ready s"
  "aux_ready (splice_plugin s plugin new_plugin) = aux_ready s"
  "aux_ready (move_up s plugin pp p n) = aux_ready s"
  "aux_ready (move_down s plugin pq n' nn) = aux_ready s"
  by (simp_all add: aux_ready_def)

lemma desc_ops [simp]:
  "desc (store (vst2_process_add_plugin s plugin) q) = desc (store s q)"
  "desc (store (unlink_plugin s plugin) q) = desc (store s q)"
  "desc (store (splice_plugin s plugin new_plugin) q) = desc (store s q)"
  "desc (store (move_up s plugin pp p n) q) = desc (store s q)"
  "desc (store (move_down s plugin pq n' nn) q) = desc (store s q)"
  by (simp_all add: vst2_process_add_plugin_def unlink_plugin_def splice_plugin_def
      move_up_def move_down_def Let_def split: option.splits)

lemma aux_ports_of_ops [simp]:
  "aux_ports_of (vst2_process_add_plugin s plugin) = aux_ports_of s"
  "aux_ports_of (unlink_plugin s plugin) = aux_ports_of s"
  "aux_ports_of (splice_plugin s plugin new_plugin) = aux_ports_of s"
  "aux_ports_of (move_up s plugin pp p n) = aux_ports_of s"
  "aux_ports_of (move_down s plugin pq n' nn) = aux_ports_of s"
  by (simp_all add: vst2_process_add_plugin_def unlink_plugin_def splice_plugin_def
      move_up_def move_down_def Let_def split: option.splits)

lemma unlink_own:
  assumes "dll s (as @ plugin # bs)"
  shows "get_next (unlink_plugin s plugin) plugin = get_next s plugin"
    and "get_prev (unlink_plugin s plugin) plugin = get_prev s plugin"
  using assms dll_links [OF assms]
  by (cases as rule: rev_cases; cases bs; auto simp: dll_def unlink_plugin_def Let_def)+

lemma splice_own:
  assumes "dll s (as @ plugin # bs)" "new_plugin \<notin> set (as @ plugin # bs)"
  shows "get_next (splice_plugin s plugin new_plugin) plugin = get_next s plugin"
    and "get_prev (splice_plugin s plugin new_plugin) plugin = get_prev s plugin"
  using assms dll_links [OF assms(1)]
  by (cases as rule: rev_cases; cases bs; auto simp: dll_def splice_plugin_def Let_def)+

lemma path_start: "path f r bs None \<Longrightarrow> r = (case bs of [] \<Rightarrow> None | b # _ \<Rightarrow> Some b)"
  by (cases bs) auto

lemma downstream_path:
  assumes "dll s (as @ x # bs)"
  shows "path (get_next s) (get_next s x) bs None"
  using assms by (auto simp: dll_def path_append)

subsection \<open>What each chain operation does\<close>

lemma sort_out_spec:
  assumes "dll s (as @ plugin # bs)" "aux_ready s" "get_next u plugin = get_next s plugin"
    "path (get_next u) (get_next u plugin) bs None" "aux_ready u"
  shows "\<exists>s'. sort_out_aux_ports u plugin = Some s' \<and> only_aux u s'
     \<and> (if jack_client u \<noteq> None \<and> aux_channels (desc (store u plugin)) > 0 then
           map (aux_ports_of s') (same_id u plugin bs @ [plugin])
             = map (aux_ports_of u) (plugin # same_id u plugin bs)
           \<and> (\<forall>q. q \<noteq> plugin \<and> q \<notin> set (same_id u plugin bs) \<longrightarrow> store s' q = store u q)
         else s' = u)"
proof (cases "jack_client u \<noteq> None \<and> aux_channels (desc (store u plugin)) > 0")
  case False
  then show ?thesis by (auto simp: sort_out_aux_ports_def only_aux_refl)
next
  case True
  from assms(1) have d: "plugin \<notin> set bs" "distinct bs" by (auto simp: dll_def)
  from True assms(5) have w: "wf_store u" by (auto simp: aux_ready_def)
  from aux_loop_spec [OF assms(4) d w] True
  show ?thesis by (simp add: sort_out_aux_ports_def)
qed

lemma remove_spec:
  assumes "dll s (as @ plugin # bs)" "aux_ready s"
  shows "\<exists>s'. vst2_process_remove_plugin s plugin = Some (s', plugin)
     \<and> only_aux (unlink_plugin s plugin) s' \<and> dll s' (as @ bs) \<and> aux_ready s'
     \<and> (if jack_client s \<noteq> None \<and> aux_channels (desc (store s plugin)) > 0 then
           map (aux_ports_of s') (same_id s plugin bs @ [plugin])
             = map (aux_ports_of s) (plugin # same_id s plugin bs)
           \<and> (\<forall>q. q \<noteq> plugin \<and> q \<notin> set (same_id s plugin bs)
                  \<longrightarrow> aux_ports_of s' q = aux_ports_of s q)
         else s' = unlink_plugin s plugin)"
proof -
  let ?u = "unlink_plugin s plugin"
  have du: "dll ?u (as @ bs)" using assms(1) by (rule dll_unlink)
  have own: "get_next ?u plugin = get_next s plugin" using assms(1) by (rule unlink_own)
  have "path (get_next ?u) (get_next s plugin) bs None"
  proof -
    from du obtain r where r: "path (get_next ?u) r bs None" by (auto simp: dll_def path_append)
    from path_start [OF r] dll_links(1) [OF assms(1)] r show ?thesis by simp
  qed
  then have p: "path (get_next ?u) (get_next ?u plugin) bs None" by (simp add: own)
  have wu: "aux_ready ?u" using assms(2) by simp
  from sort_out_spec [OF assms own p wu] obtain s' where s':
    "sort_out_aux_ports ?u plugin = Some s'" "only_aux ?u s'"
    "if jack_client ?u \<noteq> None \<and> aux_channels (desc (store ?u plugin)) > 0 then
           map (aux_ports_of s') (same_id ?u plugin bs @ [plugin])
             = map (aux_ports_of ?u) (plugin # same_id ?u plugin bs)
           \<and> (\<forall>q. q \<noteq> plugin \<and> q \<notin> set (same_id ?u plugin bs) \<longrightarrow> store s' q = store ?u q)
         else s' = ?u"
    by blast
  have sid: "same_id ?u plugin bs = same_id s plugin bs" by (simp add: same_id_def)
  have 1: "vst2_process_remove_plugin s plugin = Some (s', plugin)"
    using s'(1) by (simp add: vst2_process_remove_plugin_def)
  have 2: "dll s' (as @ bs)" using du by (simp add: only_aux_dll [OF s'(2)])
  have 3: "aux_ready s'" using wu by (simp add: only_aux_aux_ready [OF s'(2)])
  have 4: "if jack_client s \<noteq> None \<and> aux_channels (desc (store s plugin)) > 0 then
           map (aux_ports_of s') (same_id s plugin bs @ [plugin])
             = map (aux_ports_of s) (plugin # same_id s plugin bs)
           \<and> (\<forall>q. q \<noteq> plugin \<and> q \<notin> set (same_id s plugin bs)
                  \<longrightarrow> aux_ports_of s' q = aux_ports_of s q)
         else s' = unlink_plugin s plugin"
  proof (cases "jack_client s \<noteq> None \<and> aux_channels (desc (store s plugin)) > 0")
    case False
    with s'(3) show ?thesis by (auto split: if_splits)
  next
    case True
    with s'(3) have a: "map (aux_ports_of s') (same_id s plugin bs @ [plugin])
             = map (aux_ports_of s) (plugin # same_id s plugin bs)"
      and b: "\<forall>q. q \<noteq> plugin \<and> q \<notin> set (same_id s plugin bs) \<longrightarrow> store s' q = store ?u q"
      by (simp_all add: sid)
    have "aux_ports_of s' q = aux_ports_of s q" if "q \<noteq> plugin \<and> q \<notin> set (same_id s plugin bs)" for q
    proof -
      from b that have "store s' q = store ?u q" by blast
      then have "aux_ports_of s' q = aux_ports_of ?u q" by (simp only: aux_ports_of_def)
      then show ?thesis by simp
    qed
    with a True show ?thesis by simp
  qed
  from 1 s'(2) 2 3 4 show ?thesis by blast
qed

lemma change_spec:
  assumes "dll s (as @ plugin # bs)" "new_plugin \<notin> set (as @ plugin # bs)" "aux_ready s"
  shows "\<exists>s'. vst2_process_change_plugin s plugin new_plugin = Some (s', plugin)
     \<and> only_aux (splice_plugin s plugin new_plugin) s' \<and> dll s' (as @ new_plugin # bs)
     \<and> aux_ready s'"
proof -
  let ?u = "splice_plugin s plugin new_plugin"
  have du: "dll ?u (as @ new_plugin # bs)" using assms(1,2) by (rule dll_splice)
  have own: "get_next ?u plugin = get_next s plugin" using assms(1,2) by (rule splice_own)
  have p0: "path (get_next ?u) (get_next ?u new_plugin) bs None"
    using du by (rule downstream_path)
  have "get_next ?u new_plugin = get_next s plugin"
    using dll_links(1) [OF du] dll_links(1) [OF assms(1)] by simp
  with p0 own have p: "path (get_next ?u) (get_next ?u plugin) bs None" by simp
  have wu: "aux_ready ?u" using assms(3) by simp
  from sort_out_spec [OF assms(1,3) own p wu] obtain s' where s':
    "sort_out_aux_ports ?u plugin = Some s'" "only_aux ?u s'"
    by blast
  have 1: "vst2_process_change_plugin s plugin new_plugin = Some (s', plugin)"
    using s'(1) by (simp add: vst2_process_change_plugin_def)
  have 2: "dll s' (as @ new_plugin # bs)" using du by (simp add: only_aux_dll [OF s'(2)])
  have 3: "aux_ready s'" using wu by (simp add: only_aux_aux_ready [OF s'(2)])
  from 1 s'(2) 2 3 show ?thesis by blast
qed

lemma wf_storeD:
  assumes "wf_store s"
  shows "wf_plugin (store s p)"
    and "desc_id (desc (store s p)) = desc_id (desc (store s q)) \<Longrightarrow> copies (store s p) = copies (store s q)"
proof -
  from assms have a: "\<forall>p. wf_plugin (store s p)"
    and b: "\<forall>p q. desc_id (desc (store s p)) = desc_id (desc (store s q))
        \<longrightarrow> copies (store s p) = copies (store s q)"
    unfolding wf_store_def by blast+
  from a show "wf_plugin (store s p)" by blast
  assume "desc_id (desc (store s p)) = desc_id (desc (store s q))"
  with b show "copies (store s p) = copies (store s q)" by blast
qed

lemma move_aux_spec:
  assumes "aux_ready u" "(if up then get_next u plugin else get_prev u plugin) = Some other"
    "plugin \<noteq> other"
  shows "\<exists>s'. move_aux_ports u plugin up = Some s' \<and> only_aux u s'
     \<and> (if jack_client u \<noteq> None \<and> aux_channels (desc (store u plugin)) > 0
           \<and> desc_id (desc (store u other)) = desc_id (desc (store u plugin))
         then aux_ports_of s' plugin = aux_ports_of u other
            \<and> aux_ports_of s' other = aux_ports_of u plugin
            \<and> (\<forall>q. q \<noteq> plugin \<and> q \<noteq> other \<longrightarrow> store s' q = store u q)
         else s' = u)"
proof (cases "jack_client u \<noteq> None \<and> aux_channels (desc (store u plugin)) > 0
           \<and> desc_id (desc (store u other)) = desc_id (desc (store u plugin))")
  case False
  with assms(2) show ?thesis by (auto simp: move_aux_ports_def only_aux_refl)
next
  case True
  with assms(1) have w: "wf_store u" by (auto simp: aux_ready_def)
  from True have c: "copies (store u plugin) = copies (store u other)"
    using wf_storeD(2) [OF w, of plugin other] by simp
  from swap_spec [OF assms(3) wf_storeD(1) [OF w] wf_storeD(1) [OF w] c]
  obtain s' where "vst2_plugin_swap_aux_ports u plugin other = Some s'" "only_aux u s'"
     "aux_ports_of s' plugin = aux_ports_of u other"
     "aux_ports_of s' other = aux_ports_of u plugin"
     "\<forall>q. q \<noteq> plugin \<and> q \<noteq> other \<longrightarrow> store s' q = store u q"
    by blast
  with True assms(2) show ?thesis by (simp add: move_aux_ports_def)
qed

lemma move_boundary:
  "get_prev s plugin = None \<Longrightarrow> vst2_process_move_plugin s plugin True = Some s"
  "get_next s plugin = None \<Longrightarrow> vst2_process_move_plugin s plugin False = Some s"
  by (simp_all add: vst2_process_move_plugin_def Let_def)

lemma move_up_spec:
  assumes "dll s (as @ p # plugin # bs)" "aux_ready s"
  shows "\<exists>s'. vst2_process_move_plugin s plugin True = Some s'
     \<and> only_aux (move_up s plugin (get_prev s p) p (get_next s plugin)) s'
     \<and> dll s' (as @ plugin # p # bs) \<and> aux_ready s'
     \<and> (if jack_client s \<noteq> None \<and> aux_channels (desc (store s plugin)) > 0
           \<and> desc_id (desc (store s p)) = desc_id (desc (store s plugin))
         then aux_ports_of s' plugin = aux_ports_of s p
            \<and> aux_ports_of s' p = aux_ports_of s plugin
         else aux_ports_of s' plugin = aux_ports_of s plugin
            \<and> aux_ports_of s' p = aux_ports_of s p)"
proof -
  let ?u = "move_up s plugin (get_prev s p) p (get_next s plugin)"
  from assms(1) have a': "dll s ((as @ [p]) @ plugin # bs)" by simp
  have pv: "get_prev s plugin = Some p" using dll_links(2) [OF a'] by simp
  have du: "dll ?u (as @ plugin # p # bs)" using assms(1) by (rule dll_move_up)
  have nx: "get_next ?u plugin = Some p" using dll_links(1) [OF du] by simp
  have ne: "plugin \<noteq> p" using assms(1) by (auto simp: dll_def)
  have wu: "aux_ready ?u" using assms(2) by simp
  from move_aux_spec [OF wu, of True plugin p] nx ne
  obtain s' where s': "move_aux_ports ?u plugin True = Some s'" "only_aux ?u s'"
     "if jack_client ?u \<noteq> None \<and> aux_channels (desc (store ?u plugin)) > 0
           \<and> desc_id (desc (store ?u p)) = desc_id (desc (store ?u plugin))
         then aux_ports_of s' plugin = aux_ports_of ?u p
            \<and> aux_ports_of s' p = aux_ports_of ?u plugin
            \<and> (\<forall>q. q \<noteq> plugin \<and> q \<noteq> p \<longrightarrow> store s' q = store ?u q)
         else s' = ?u"
    by auto
  have 1: "vst2_process_move_plugin s plugin True = Some s'"
    using pv s'(1) by (simp add: vst2_process_move_plugin_def Let_def)
  have 2: "dll s' (as @ plugin # p # bs)" using du by (simp add: only_aux_dll [OF s'(2)])
  have 3: "aux_ready s'" using wu by (simp add: only_aux_aux_ready [OF s'(2)])
  have 4: "if jack_client s \<noteq> None \<and> aux_channels (desc (store s plugin)) > 0
           \<and> desc_id (desc (store s p)) = desc_id (desc (store s plugin))
         then aux_ports_of s' plugin = aux_ports_of s p
            \<and> aux_ports_of s' p = aux_ports_of s plugin
         else aux_ports_of s' plugin = aux_ports_of s plugin
            \<and> aux_ports_of s' p = aux_ports_of s p"
    using s'(3) by (auto split: if_splits)
  from 1 s'(2) 2 3 4 show ?thesis by blast
qed

lemma move_down_spec:
  assumes "dll s (as @ plugin # n # bs)" "aux_ready s"
  shows "\<exists>s'. vst2_process_move_plugin s plugin False = Some s'
     \<and> only_aux (move_down s plugin (get_prev s plugin) n (get_next s n)) s'
     \<and> dll s' (as @ n # plugin # bs) \<and> aux_ready s'
     \<and> (if jack_client s \<noteq> None \<and> aux_channels (desc (store s plugin)) > 0
           \<and> desc_id (desc (store s n)) = desc_id (desc (store s plugin))
         then aux_ports_of s' plugin = aux_ports_of s n
            \<and> aux_ports_of s' n = aux_ports_of s plugin
         else aux_ports_of s' plugin = aux_ports_of s plugin
            \<and> aux_ports_of s' n = aux_ports_of s n)"
proof -
  let ?u = "move_down s plugin (get_prev s plugin) n (get_next s n)"
  have nx: "get_next s plugin = Some n" using dll_links(1) [OF assms(1)] by simp
  have du: "dll ?u (as @ n # plugin # bs)" using assms(1) by (rule dll_move_down)
  from du have du': "dll ?u ((as @ [n]) @ plugin # bs)" by simp
  have pv: "get_prev ?u plugin = Some n" using dll_links(2) [OF du'] by simp
  have ne: "plugin \<noteq> n" using assms(1) by (auto simp: dll_def)
  have wu: "aux_ready ?u" using assms(2) by simp
  from move_aux_spec [OF wu, of False plugin n] pv ne
  obtain s' where s': "move_aux_ports ?u plugin False = Some s'" "only_aux ?u s'"
     "if jack_client ?u \<noteq> None \<and> aux_channels (desc (store ?u plugin)) > 0
           \<and> desc_id (desc (store ?u n)) = desc_id (desc (store ?u plugin))
         then aux_ports_of s' plugin = aux_ports_of ?u n
            \<and> aux_ports_of s' n = aux_ports_of ?u plugin
            \<and> (\<forall>q. q \<noteq> plugin \<and> q \<noteq> n \<longrightarrow> store s' q = store ?u q)
         else s' = ?u"
    by auto
  have 1: "vst2_process_move_plugin s plugin False = Some s'"
    using nx s'(1) by (simp add: vst2_process_move_plugin_def Let_def)
  have 2: "dll s' (as @ n # plugin # bs)" using du by (simp add: only_aux_dll [OF s'(2)])
  have 3: "aux_ready s'" using wu by (simp add: only_aux_aux_ready [OF s'(2)])
  have 4: "if jack_client s \<noteq> None \<and> aux_channels (desc (store s plugin)) > 0
           \<and> desc_id (desc (store s n)) = desc_id (desc (store s plugin))
         then aux_ports_of s' plugin = aux_ports_of s n
            \<and> aux_ports_of s' n = aux_ports_of s plugin
         else aux_ports_of s' plugin = aux_ports_of s plugin
            \<and> aux_ports_of s' n = aux_ports_of s n"
    using s'(3) by (auto split: if_splits)
  from 1 s'(2) 2 3 4 show ?thesis by blast
qed

subsection \<open>The example rack\<close>

lemma example_rack_dll: "dll example_rack [1, 2, 3]"
  by (simp add: dll_def example_rack_def example_store_def example_plugin_def get_next_def get_prev_def)

lemma example_plugin_wf: "wf_plugin (example_plugin i ports p n)"
  by (simp add: wf_plugin_def example_plugin_def list_all_iff)

lemma example_rack_wf: "wf_store example_rack"
  unfolding wf_store_def
proof (intro conjI allI impI)
  fix p show "wf_plugin (store example_rack p)"
    by (simp add: example_rack_def example_store_def example_plugin_wf)
next
  fix p q
  assume "desc_id (desc (store example_rack p)) = desc_id (desc (store example_rack q))"
  then show "copies (store example_rack p) = copies (store example_rack q)"
    by (simp add: example_rack_def example_store_def example_plugin_def split: if_splits)
qed

lemma empty_rack_wf: "wf_store empty_rack"
  using example_rack_wf by (simp add: empty_rack_def)

lemma example_rack_ready: "aux_ready example_rack" "aux_ready empty_rack"
  using example_rack_wf empty_rack_wf by (simp_all add: aux_ready_def)

subsection \<open>Runs of operations\<close>

lemma dll_linked: "dll s xs \<Longrightarrow> linked s p = (p \<in> set xs)"
  using path_walk [of "get_next s" "chain s" xs] by (simp add: linked_def dll_def)

lemma step_ok:
  assumes "dll s xs" "aux_ready s" "precondition s x"
  shows "\<exists>s' xs'. apply_operation s x = Some s' \<and> dll s' xs' \<and> aux_ready s'"
proof (cases x)
  case (Append p)
  with assms have "p \<notin> set xs" by (simp add: dll_linked)
  from dll_add [OF assms(1) this] assms(2) Append show ?thesis by auto
next
  case (Remove p)
  with assms have "p \<in> set xs" by (simp add: dll_linked)
  then obtain as bs where xs: "xs = as @ p # bs" by (auto dest: split_list)
  from remove_spec [OF assms(1) [unfolded xs] assms(2)] Remove show ?thesis by auto
next
  case (Move p up)
  with assms have "p \<in> set xs" by (simp add: dll_linked)
  then obtain as bs where xs: "xs = as @ p # bs" by (auto dest: split_list)
  note d = assms(1) [unfolded xs]
  show ?thesis
  proof (cases up)
    case True
    show ?thesis
    proof (cases as rule: rev_cases)
      case Nil
      with dll_links(2) [OF d] have "get_prev s p = None" by simp
      from move_boundary(1) [OF this] assms Move True show ?thesis by auto
    next
      case (snoc as' a)
      with d have "dll s (as' @ a # p # bs)" by simp
      from move_up_spec [OF this assms(2)] Move True show ?thesis by auto
    qed
  next
    case False
    show ?thesis
    proof (cases bs)
      case Nil
      with dll_links(1) [OF d] have "get_next s p = None" by simp
      from move_boundary(2) [OF this] assms Move False show ?thesis by auto
    next
      case (Cons b bs')
      with d have "dll s (as @ p # b # bs')" by simp
      from move_down_spec [OF this assms(2)] Move False show ?thesis by auto
    qed
  qed
next
  case (Replace p q)
  with assms have pq: "p \<in> set xs" "q \<notin> set xs" by (simp_all add: dll_linked)
  then obtain as bs where xs: "xs = as @ p # bs" by (auto dest: split_list)
  from pq(2) have "q \<notin> set (as @ p # bs)" by (simp add: xs)
  from change_spec [OF assms(1) [unfolded xs] this assms(2)] Replace show ?thesis by auto
qed

lemma run_ok:
  assumes "dll s xs" "aux_ready s" "admissible s ops"
  shows "\<exists>s' xs'. run s ops = Some s' \<and> dll s' xs' \<and> aux_ready s'"
  using assms
proof (induction ops arbitrary: s xs)
  case Nil
  then show ?case by auto
next
  case (Cons x ops)
  from Cons.prems(3) have pre: "precondition s x" by simp
  from step_ok [OF Cons.prems(1,2) pre] obtain s1 xs1 where
    s1: "apply_operation s x = Some s1" "dll s1 xs1" "aux_ready s1" by blast
  from Cons.prems(3) s1(1) have "admissible s1 ops" by simp
  from Cons.IH [OF s1(2,3) this] s1(1) show ?case by simp
qed

lemma admissible_take: "admissible s ops \<Longrightarrow> admissible s (take k ops)"
proof (induction ops arbitrary: s k)
  case Nil
  then show ?case by simp
next
  case (Cons x ops)
  then show ?case by (cases k) (auto split: option.splits)
qed

lemma dll_next_prev:
  assumes "dll s xs" "n \<in> set xs" "get_next s n = Some m"
  shows "get_prev s m = Some n"
proof -
  from assms(2) obtain as bs where xs: "xs = as @ n # bs" by (auto dest: split_list)
  from dll_links(1) [OF assms(1) [unfolded xs]] assms(3) obtain bs' where "bs = m # bs'"
    by (cases bs) auto
  with assms(1) xs have "dll s ((as @ [n]) @ m # bs')" by simp
  from dll_links(2) [OF this] show ?thesis by simp
qed

lemma dll_prev_next:
  assumes "dll s xs" "m \<in> set xs" "get_prev s m = Some n"
  shows "get_next s n = Some m"
proof -
  from assms(2) obtain as bs where xs: "xs = as @ m # bs" by (auto dest: split_list)
  from dll_links(2) [OF assms(1) [unfolded xs]] assms(3) have "as \<noteq> []" "n = last as"
    by (auto split: if_splits)
  then obtain as' where "as = as' @ [n]" by (metis append_butlast_last_id)
  with assms(1) xs have "dll s (as' @ n # m # bs)" by simp
  from dll_links(1) [OF this] show ?thesis by simp
qed

lemma dll_head_tail:
  assumes "dll s xs"
  shows "chain s = Some h \<Longrightarrow> get_prev s h = None" "chain_end s = Some t \<Longrightarrow> get_next s t = None"
proof -
  assume "chain s = Some h"
  with dll_ends(1) [OF assms] obtain bs where "xs = [] @ h # bs" by (cases xs) auto
  from dll_links(2) [OF assms [unfolded this]] show "get_prev s h = None" by simp
next
  assume "chain_end s = Some t"
  with dll_ends(2) [OF assms] have "xs \<noteq> []" "t = last xs" by (auto split: if_splits)
  then obtain ys where "xs = ys @ t # []" by (metis append_butlast_last_id)
  from dll_links(1) [OF assms [unfolded this]] show "get_next s t = None" by simp
qed

lemma example_ops_admissible: "admissible empty_rack example_ops"
  by (simp add: example_ops_def empty_rack_def example_rack_def example_store_def example_plugin_def
      linked_def walk_Some get_next_def get_prev_def set_next_def set_prev_def
      vst2_process_add_plugin_def Let_def vst2_process_move_plugin_def move_up_def move_down_def
      move_aux_ports_def vst2_plugin_swap_aux_ports_def swap_copy_def get_aux_ports_def set_aux_ports_def
      vst2_process_change_plugin_def splice_plugin_def sort_out_aux_ports_def aux_loop_Some
      vst2_process_remove_plugin_def unlink_plugin_def)

lemmas example_defs = example_rack_def example_store_def example_plugin_def

lemma handed_down:
  assumes "map f (ms @ [p]) = map g (p # ms)"
  shows "\<forall>i<length ms. f (ms ! i) = g ((p # ms) ! i)" and "f p = g (last (p # ms))"
proof -
  have n: "map f (ms @ [p]) ! i = map g (p # ms) ! i" for i
    using assms by simp
  show "\<forall>i<length ms. f (ms ! i) = g ((p # ms) ! i)"
  proof (intro allI impI)
    fix i assume i: "i < length ms"
    then have "map f (ms @ [p]) ! i = f (ms ! i)"
      by (simp add: nth_append del: map_append)
    moreover from i have "map g (p # ms) ! i = g ((p # ms) ! i)"
      by (intro nth_map) simp
    ultimately show "f (ms ! i) = g ((p # ms) ! i)" using n [of i] by simp
  qed
  have "map f (ms @ [p]) ! length ms = f p"
    by (simp add: nth_append del: map_append)
  moreover have "map g (p # ms) ! length ms = g ((p # ms) ! length ms)"
    by (intro nth_map) simp
  moreover have "(p # ms) ! length ms = last (p # ms)"
    by (simp add: last_conv_nth)
  ultimately show "f p = g (last (p # ms))" using n [of "length ms"] by simp
qed

subsection \<open>Loops of node creation\<close>

lemma for_each_append:
  "for_each (xs @ ys) body x =
     (case for_each xs body x of Inl e \<Rightarrow> Inl e | Inr y \<Rightarrow> for_each ys body y)"
  by (induction xs arbitrary: x) (auto split: sum.splits)

lemma for_each_invariant:
  assumes "for_each ns body x = Inr y" "P x"
    and "\<And>i a b. i \<in> set ns \<Longrightarrow> P a \<Longrightarrow> body i a = Inr b \<Longrightarrow> P b"
  shows "P y"
  using assms
proof (induction ns arbitrary: x)
  case Nil
  then show ?case by simp
next
  case (Cons n ns)
  from Cons.prems(1) obtain z where z: "body n x = Inr z" "for_each ns body z = Inr y"
    by (auto split: sum.splits)
  from Cons.prems(3) [OF _ Cons.prems(2) z(1)] have "P z" by simp
  show ?case
  proof (rule Cons.IH [OF z(2) \<open>P z\<close>])
    fix i a b assume "i \<in> set ns" "P a" "body i a = Inr b"
    then show "P b" using Cons.prems(3) [of i a b] by simp
  qed
qed

lemma seed_loop:
  assumes "k \<le> n" "n \<le> length (control_port_indicies d)"
  shows "for_each [0..<k] (seed_control ext d (Some e))
           (replicate n None, replicate n None, s)
       = Inr (replicate k (Some (lff_init CONTROL_FIFO_SIZE 4)) @ replicate (n - k) None,
              map (\<lambda>i. Some (default_of ext d i)) [0..<k] @ replicate (n - k) None,
              s\<lparr>trace := trace s @ map (push_of ext d e) [0..<k]\<rparr>)"
  using assms
proof (induction k)
  case 0
  then show ?case by simp
next
  case (Suc k)
  then have k: "k < n" "k < length (control_port_indicies d)" by simp_all
  have r: "replicate (n - k) None = None # replicate (n - Suc k) None" for x :: "'b option"
    using k by (simp add: Suc_diff_Suc flip: replicate_Suc)
  have "seed_control ext d (Some e) k
          (replicate k (Some (lff_init CONTROL_FIFO_SIZE 4)) @ replicate (n - k) None,
           map (\<lambda>i. Some (default_of ext d i)) [0..<k] @ replicate (n - k) None,
              s\<lparr>trace := trace s @ map (push_of ext d e) [0..<k]\<rparr>)
      = Inr (replicate (Suc k) (Some (lff_init CONTROL_FIFO_SIZE 4)) @ replicate (n - Suc k) None,
              map (\<lambda>i. Some (default_of ext d i)) [0..<Suc k] @ replicate (n - Suc k) None,
              s\<lparr>trace := trace s @ map (push_of ext d e) [0..<Suc k]\<rparr>)"
    using k
    by (simp add: seed_control_def Let_def r list_update_append nth_append default_of_def push_of_def
        replicate_append_same)
  with Suc show ?case by (simp add: for_each_append)
qed

lemma push_again_loop:
  assumes "k \<le> n" "n \<le> length (control_port_indicies d)"
  shows "for_each [0..<k] (push_again ext d (Some e) (map (\<lambda>i. Some (default_of ext d i)) [0..<n])) s
       = Inr (s\<lparr>trace := trace s @ map (push_of ext d e) [0..<k]\<rparr>)"
  using assms
proof (induction k)
  case 0
  then show ?case by simp
next
  case (Suc k)
  then show ?case
    by (simp add: for_each_append push_again_def push_of_def)
qed

lemma bookkeeping_only_refl: "bookkeeping_only s s"
  by (simp add: bookkeeping_only_def)

lemma bookkeeping_only_trans:
  "bookkeeping_only s s1 \<Longrightarrow> bookkeeping_only s1 s2 \<Longrightarrow> bookkeeping_only s s2"
  by (auto simp: bookkeeping_only_def)

lemma g_malloc_fields [simp]:
  "chain (snd (g_malloc n s)) = chain s"
  "chain_end (snd (g_malloc n s)) = chain_end s"
  "jack_client (snd (g_malloc n s)) = jack_client s"
  "store (snd (g_malloc n s)) = store s"
  "trace (snd (g_malloc n s)) = trace s"
  by (simp_all add: g_malloc_def)

lemma g_free_fields [simp]:
  "chain (g_free p s) = chain s"
  "chain_end (g_free p s) = chain_end s"
  "jack_client (g_free p s) = jack_client s"
  "store (g_free p s) = store s"
  "trace (g_free p s) = trace s"
  by (simp_all add: g_free_def split: option.splits)

lemma g_malloc_bookkeeping: "bookkeeping_only s (snd (g_malloc n s))"
  by (simp add: bookkeeping_only_def)

lemma g_free_bookkeeping: "bookkeeping_only s (g_free p s)"
  by (simp add: bookkeeping_only_def)

lemma for_each_total:
  assumes "P x" and "\<And>i a. i \<in> set ns \<Longrightarrow> P a \<Longrightarrow> \<exists>b. body i a = Inr b \<and> P b"
  shows "\<exists>y. for_each ns body x = Inr y \<and> P y"
  using assms
proof (induction ns arbitrary: x)
  case Nil
  then show ?case by simp
next
  case (Cons n ns)
  from Cons.prems(2) [OF _ Cons.prems(1), of n] obtain z where z: "body n x = Inr z" "P z"
    by auto
  have "\<exists>y. for_each ns body z = Inr y \<and> P y"
  proof (rule Cons.IH [OF z(2)])
    fix i a assume "i \<in> set ns" "P a"
    then show "\<exists>b. body i a = Inr b \<and> P b" using Cons.prems(2) [of i a] by simp
  qed
  with z(1) show ?case by simp
qed

lemma register_aux_port_ok:
  assumes "\<forall>tr n inp. jack_port_register ext tr n inp \<noteq> None" "i < length ports"
    "bookkeeping_only s0 s"
  shows "\<exists>ports' s'. register_aux_port ext d nm copy i (ports, s) = Inr (ports', s')
     \<and> length ports' = length ports \<and> bookkeeping_only s0 s'"
proof -
  let ?name = "aux_port_name d nm 1 copy (i + 1)"
  from assms(1) obtain a where a: "jack_port_register ext (trace s) ?name (aux_are_input d) = Some a"
    by (metis option.exhaust)
  have "bookkeeping_only s (s\<lparr>trace := trace s @ [PortRegister ?name (aux_are_input d)]\<rparr>)"
    by (simp add: bookkeeping_only_def)
  with assms(3) have "bookkeeping_only s0 (s\<lparr>trace := trace s @ [PortRegister ?name (aux_are_input d)]\<rparr>)"
    by (rule bookkeeping_only_trans)
  with a assms(2) show ?thesis
    by (simp add: register_aux_port_def Let_def)
qed

lemma create_aux_ports_ok:
  assumes "\<forall>tr n inp. jack_port_register ext tr n inp \<noteq> None"
  shows "\<exists>ports s'. vst2_plugin_create_aux_ports ext d copy s = Inr (ports, s')
     \<and> bookkeeping_only s s'"
proof -
  let ?s2 = "snd (g_malloc (length (take 7 (desc_name d)) + 1) (snd (g_malloc (aux_channels d) s)))"
  let ?P = "\<lambda>x :: ptr array \<times> state. length (fst x) = aux_channels d \<and> bookkeeping_only s (snd x)"
  have b2: "bookkeeping_only s ?s2"
    by (simp add: bookkeeping_only_def)
  have "\<exists>y. for_each [0..<aux_channels d] (register_aux_port ext d (jack_worthy (desc_name d)) copy)
          (replicate (aux_channels d) None, ?s2) = Inr y \<and> ?P y"
  proof (rule for_each_total)
    show "?P (replicate (aux_channels d) None, ?s2)" using b2 by simp
  next
    fix i a assume i: "i \<in> set [0..<aux_channels d]" and a: "?P a"
    obtain ports t where pt: "a = (ports, t)" by (cases a)
    from register_aux_port_ok [OF assms, of i ports s t d "jack_worthy (desc_name d)" copy] i a pt
    show "\<exists>b. register_aux_port ext d (jack_worthy (desc_name d)) copy i a = Inr b \<and> ?P b"
      by auto
  qed
  then obtain ports s3 where l: "for_each [0..<aux_channels d]
        (register_aux_port ext d (jack_worthy (desc_name d)) copy)
          (replicate (aux_channels d) None, ?s2) = Inr (ports, s3)" "bookkeeping_only s s3"
    by auto
  have "bookkeeping_only s (g_free (fst (g_malloc (length (take 7 (desc_name d)) + 1)
           (snd (g_malloc (aux_channels d) s)))) s3)"
    using l(2) g_free_bookkeeping by (rule bookkeeping_only_trans)
  with l(1) show ?thesis
    by (simp add: vst2_plugin_create_aux_ports_def Let_def split_def)
qed

lemma init_holder_spec:
  assumes "control_port_count d \<le> length (control_port_indicies d)"
    "status_port_count d \<le> control_port_count d \<or> control_port_count d = 0"
    "desc (store s plugin) = d" "copy < length (holders (store s plugin))"
    "jack_client s = None \<or> aux_channels d = 0
       \<or> (\<forall>tr n inp. jack_port_register ext tr n inp \<noteq> None)"
  shows "\<exists>s' ports. vst2_plugin_init_holder ext plugin copy (Some e) s = Inr s'
    \<and> store s' = (store s)(plugin := (store s plugin)
         \<lparr>holders := (holders (store s plugin))[copy := Some
            \<lparr>effect = Some e,
             ui_control_fifos = replicate (control_port_count d) (Some (lff_init CONTROL_FIFO_SIZE 4)),
             control_memory = map (\<lambda>i. Some (default_of ext d i)) [0..<control_port_count d],
             status_memory = replicate (status_port_count d) None,
             aux_ports = ports\<rparr>]\<rparr>)
    \<and> chain s' = chain s \<and> chain_end s' = chain_end s \<and> jack_client s' = jack_client s
    \<and> pushes_since s s' = map (push_of ext d e) [0..<control_port_count d]
         @ (if control_port_count d = 0 then [] else map (push_of ext d e) [0..<status_port_count d])"
proof -
  let ?n = "control_port_count d"
  let ?m = "status_port_count d"
  let ?mem = "map (\<lambda>i. Some (default_of ext d i)) [0..<?n]"
  let ?fifos = "replicate ?n (Some (lff_init CONTROL_FIFO_SIZE 4))"
  let ?again = "if ?n = 0 then [] else map (push_of ext d e) [0..<?m]"
  obtain p1 s1 where g1: "g_malloc ?n s = (p1, s1)" by fastforce
  obtain p2 s2 where g2: "g_malloc ?n s1 = (p2, s2)" by fastforce
  define s3 where "s3 = s2\<lparr>trace := trace s2 @ map (push_of ext d e) [0..<?n]\<rparr>"
  obtain p4 s4 where g4: "g_malloc ?m s3 = (p4, s4)" by fastforce
  define s5 where "s5 = s4\<lparr>trace := trace s4 @ ?again\<rparr>"
  have e1: "s1 = snd (g_malloc ?n s)" and e2: "s2 = snd (g_malloc ?n s1)"
    and e4: "s4 = snd (g_malloc ?m s3)"
    by (simp_all add: g1 g2 g4)
  have seed: "for_each [0..<?n] (seed_control ext d (Some e)) (replicate ?n None, replicate ?n None, s2)
      = Inr (?fifos, ?mem, s3)"
    using seed_loop [OF le_refl assms(1), of ext e s2] by (simp add: s3_def)
  have again: "(if ?mem \<noteq> [] then for_each [0..<?m] (push_again ext d (Some e) ?mem) s4 else Inr s4)
      = Inr s5"
  proof (cases "?n = 0")
    case True
    then show ?thesis by (simp add: s5_def)
  next
    case False
    with assms(2) have "?m \<le> ?n" by simp
    from push_again_loop [OF this assms(1), of ext e s4] False show ?thesis
      by (simp add: s5_def)
  qed
  have f5: "chain s5 = chain s" "chain_end s5 = chain_end s" "jack_client s5 = jack_client s"
    "store s5 = store s"
    "trace s5 = trace s @ map (push_of ext d e) [0..<?n] @ ?again"
    by (simp_all add: s5_def e4 s3_def e2 e1)
  have "\<exists>ports s6. (if jack_client s5 \<noteq> None \<and> aux_channels (desc (store s5 plugin)) > 0
          then (case vst2_plugin_create_aux_ports ext (desc (store s5 plugin)) copy s5 of
                  Inl e \<Rightarrow> Inl e
                | Inr (ports, s6) \<Rightarrow> Inr (Some ports, s6))
          else Inr (case get_aux_ports s5 plugin copy of
                      None \<Rightarrow> None
                    | Some ports \<Rightarrow> ports, s5)) = Inr (ports, s6) \<and> bookkeeping_only s5 s6"
  proof (cases "jack_client s5 \<noteq> None \<and> aux_channels (desc (store s5 plugin)) > 0")
    case False
    then show ?thesis by (auto simp: bookkeeping_only_refl)
  next
    case True
    with assms(3,5) f5 have "\<forall>tr n inp. jack_port_register ext tr n inp \<noteq> None" by auto
    from create_aux_ports_ok [OF this, of "desc (store s5 plugin)" copy s5] True
    show ?thesis by auto
  qed
  then obtain ports s6 where aux: "(if jack_client s5 \<noteq> None \<and> aux_channels (desc (store s5 plugin)) > 0
          then (case vst2_plugin_create_aux_ports ext (desc (store s5 plugin)) copy s5 of
                  Inl e \<Rightarrow> Inl e
                | Inr (ports, s6) \<Rightarrow> Inr (Some ports, s6))
          else Inr (case get_aux_ports s5 plugin copy of
                      None \<Rightarrow> None
                    | Some ports \<Rightarrow> ports, s5)) = Inr (ports, s6)" and b6: "bookkeeping_only s5 s6"
    by blast
  from b6 f5 obtain evs where f6: "chain s6 = chain s" "chain_end s6 = chain_end s"
    "jack_client s6 = jack_client s" "store s6 = store s"
    "trace s6 = trace s @ map (push_of ext d e) [0..<?n] @ ?again @ evs" "filter is_push evs = []"
    by (auto simp: bookkeeping_only_def)
  let ?h = "\<lparr>effect = Some e, ui_control_fifos = ?fifos, control_memory = ?mem,
             status_memory = replicate ?m None, aux_ports = ports\<rparr>"
  define s7 where "s7 = s6\<lparr>store := (store s6)(plugin := (store s6 plugin)
               \<lparr>holders := (holders (store s6 plugin))[copy := Some ?h]\<rparr>)\<rparr>"
  have st: "store_holder plugin copy ?h s6 = Inr s7"
    using assms(4) f6(4) by (simp add: store_holder_def s7_def)
  have run: "vst2_plugin_init_holder ext plugin copy (Some e) s = Inr s7"
    unfolding vst2_plugin_init_holder_def Let_def
    by (simp only: assms(3) g1 g2 g4 prod.case sum.case seed again aux st)
  have p: "filter is_push (map (push_of ext d e) ns) = map (push_of ext d e) ns" for ns
    by (induction ns) (simp_all add: push_of_def)
  have "pushes_since s s7 = map (push_of ext d e) [0..<?n] @ ?again"
    using f6(5,6) by (simp add: pushes_since_def s7_def p)
  with run f6 show ?thesis by (auto simp: s7_def)
qed

subsection \<open>What holder initialisation leaves alone\<close>

lemma quiet_refl: "quiet s s"
  by (simp add: quiet_def)

lemma quiet_trans: "quiet s s1 \<Longrightarrow> quiet s1 s2 \<Longrightarrow> quiet s s2"
  by (simp add: quiet_def)

lemma quiet_g_malloc: "g_malloc n s = (p, s') \<Longrightarrow> quiet s s'"
  by (auto simp: quiet_def g_malloc_def split: if_splits)

lemma quiet_g_free: "quiet s (g_free p s)"
  by (simp add: quiet_def)

lemma seed_control_quiet:
  "seed_control ext d eff i (f, m, s) = Inr (f', m', s') \<Longrightarrow> quiet s s'"
  by (auto simp: seed_control_def Let_def quiet_def split: if_splits option.splits)

lemma push_again_quiet: "push_again ext d eff m i s = Inr s' \<Longrightarrow> quiet s s'"
  by (auto simp: push_again_def quiet_def split: if_splits option.splits)

lemma register_aux_port_quiet:
  "register_aux_port ext d nm copy i (ports, s) = Inr (ports', s') \<Longrightarrow> quiet s s'"
  by (auto simp: register_aux_port_def Let_def quiet_def mlt_log_panic_def
      split: if_splits option.splits)

lemma seed_loop_quiet:
  assumes "for_each ns (seed_control ext d eff) (f, m, s) = Inr (f', m', s')"
  shows "quiet s s'"
proof -
  have "quiet s (snd (snd (f', m', s')))"
  proof (rule for_each_invariant [OF assms, where P = "\<lambda>x. quiet s (snd (snd x))"])
    show "quiet s (snd (snd (f, m, s)))" by (simp add: quiet_refl)
  next
    fix i and a b :: "lff array \<times> LADSPA_Data array \<times> state"
    assume "quiet s (snd (snd a))" "seed_control ext d eff i a = Inr b"
    then show "quiet s (snd (snd b))"
      by (cases a; cases b) (auto dest: seed_control_quiet intro: quiet_trans)
  qed
  then show ?thesis by simp
qed

lemma push_again_loop_quiet:
  assumes "for_each ns (push_again ext d eff m) s = Inr s'"
  shows "quiet s s'"
proof (rule for_each_invariant [OF assms, where P = "quiet s"])
  show "quiet s s" by (rule quiet_refl)
next
  fix i a b assume "quiet s a" "push_again ext d eff m i a = Inr b"
  then show "quiet s b" by (auto dest: push_again_quiet intro: quiet_trans)
qed

lemma register_loop_quiet:
  assumes "for_each ns (register_aux_port ext d nm copy) (ports, s) = Inr (ports', s')"
  shows "quiet s s'"
proof -
  have "quiet s (snd (ports', s'))"
  proof (rule for_each_invariant [OF assms, where P = "\<lambda>x. quiet s (snd x)"])
    show "quiet s (snd (ports, s))" by (simp add: quiet_refl)
  next
    fix i and a b :: "ptr array \<times> state"
    assume "quiet s (snd a)" "register_aux_port ext d nm copy i a = Inr b"
    then show "quiet s (snd b)"
      by (cases a; cases b) (auto dest: register_aux_port_quiet intro: quiet_trans)
  qed
  then show ?thesis by simp
qed

lemma create_aux_ports_quiet:
  assumes "vst2_plugin_create_aux_ports ext d copy s = Inr (ports, s')"
  shows "quiet s s'"
proof -
  obtain p1 s1 where g1: "g_malloc (aux_channels d) s = (p1, s1)" by fastforce
  obtain p2 s2 where g2: "g_malloc (length (take 7 (desc_name d)) + 1) s1 = (p2, s2)" by fastforce
  from assms obtain s3 where l: "for_each [0..<aux_channels d]
      (register_aux_port ext d (jack_worthy (desc_name d)) copy)
      (replicate (aux_channels d) None, s2) = Inr (ports, s3)" and s': "s' = g_free p2 s3"
    unfolding vst2_plugin_create_aux_ports_def Let_def
    by (simp only: g1 g2 prod.case) (auto split: sum.splits)
  from quiet_g_malloc [OF g1] quiet_g_malloc [OF g2] register_loop_quiet [OF l]
  have "quiet s s3" by (blast intro: quiet_trans)
  then show ?thesis unfolding s' using quiet_g_free by (rule quiet_trans)
qed

lemma init_holder_frame:
  assumes "vst2_plugin_init_holder ext plugin copy eff s = Inr s'"
  shows "chain s' = chain s \<and> chain_end s' = chain_end s \<and> jack_client s' = jack_client s
    \<and> (\<exists>hs. store s' = (store s)(plugin := (store s plugin)\<lparr>holders := hs\<rparr>)
          \<and> length hs = length (holders (store s plugin)))"
proof -
  let ?d = "desc (store s plugin)"
  obtain p1 s1 where g1: "g_malloc (control_port_count ?d) s = (p1, s1)" by fastforce
  obtain p2 s2 where g2: "g_malloc (control_port_count ?d) s1 = (p2, s2)" by fastforce
  from assms obtain f m s3 where l1: "for_each [0..<control_port_count ?d]
      (seed_control ext ?d eff)
      (replicate (control_port_count ?d) None, replicate (control_port_count ?d) None, s2)
        = Inr (f, m, s3)"
    unfolding vst2_plugin_init_holder_def Let_def
    by (simp only: g1 g2 prod.case) (auto split: sum.splits)
  obtain p4 s4 where g4: "g_malloc (status_port_count ?d) s3 = (p4, s4)" by fastforce
  from assms obtain s5 where l2: "(if m \<noteq> []
        then for_each [0..<status_port_count ?d] (push_again ext ?d eff m) s4
        else Inr s4) = Inr s5"
    unfolding vst2_plugin_init_holder_def Let_def
    by (simp only: g1 g2 l1 g4 prod.case sum.case) (auto split: sum.splits)
  from assms obtain ports s6 where l3:
    "(if jack_client s5 \<noteq> None \<and> aux_channels (desc (store s5 plugin)) > 0
      then (case vst2_plugin_create_aux_ports ext (desc (store s5 plugin)) copy s5 of
              Inl e \<Rightarrow> Inl e
            | Inr (ports, s6) \<Rightarrow> Inr (Some ports, s6))
      else Inr (case get_aux_ports s5 plugin copy of
                  None \<Rightarrow> None
                | Some ports \<Rightarrow> ports, s5)) = Inr (ports, s6)"
    unfolding vst2_plugin_init_holder_def Let_def
    by (simp only: g1 g2 l1 g4 l2 prod.case sum.case) (auto split: sum.splits)
  from assms have "\<exists>h. store_holder plugin copy h s6 = Inr s'"
    unfolding vst2_plugin_init_holder_def Let_def
    by (simp only: g1 g2 l1 g4 l2 l3 prod.case sum.case) blast
  then obtain h where l4: "store_holder plugin copy h s6 = Inr s'" by blast
  have q5: "quiet s4 s5" using l2 by (auto split: if_splits intro: quiet_refl push_again_loop_quiet)
  have q6: "quiet s5 s6"
    using l3 by (auto split: if_splits sum.splits intro: quiet_refl create_aux_ports_quiet)
  from quiet_g_malloc [OF g1] quiet_g_malloc [OF g2] seed_loop_quiet [OF l1]
    quiet_g_malloc [OF g4] q5 q6
  have "quiet s s6" by (blast intro: quiet_trans)
  with l4 show ?thesis
    by (auto simp: store_holder_def quiet_def split: if_splits)
qed

subsection \<open>Node creation as a whole\<close>

lemma instantiate_loop:
  assumes "k \<le> n"
  shows "for_each [0..<k] (instantiate_copy ext (Some e)) (replicate n None, s)
       = Inr (replicate k (Some (Some e)) @ replicate (n - k) None,
              s\<lparr>trace := trace s @ replicate k (SetSampleRate e (real (vst2_sample_rate ext)))\<rparr>)"
  using assms
proof (induction k)
  case 0
  then show ?case by simp
next
  case (Suc k)
  then have k: "k < n" by simp
  have r: "replicate (n - k) None = None # replicate (n - Suc k) None" for x :: "'b option"
    using k by (simp add: Suc_diff_Suc flip: replicate_Suc)
  have "instantiate_copy ext (Some e) k
          (replicate k (Some (Some e)) @ replicate (n - k) None,
           s\<lparr>trace := trace s @ replicate k (SetSampleRate e (real (vst2_sample_rate ext)))\<rparr>)
      = Inr (replicate (Suc k) (Some (Some e)) @ replicate (n - Suc k) None,
           s\<lparr>trace := trace s @ replicate (Suc k) (SetSampleRate e (real (vst2_sample_rate ext)))\<rparr>)"
    using k
    by (simp add: instantiate_copy_def r list_update_append replicate_append_same)
  with Suc show ?case by (simp add: for_each_append)
qed

lemma instantiate_err:
  "vst2_plugin_instantiate ext eff n effects s = Inr (err, effects', s') \<Longrightarrow> err = 0"
  by (auto simp: vst2_plugin_instantiate_def split: sum.splits)

lemma instantiate_Some:
  "vst2_plugin_instantiate ext (Some e) n (replicate n None) s
     = Inr (0, replicate n (Some (Some e)),
            s\<lparr>trace := trace s @ replicate n (SetSampleRate e (real (vst2_sample_rate ext)))\<rparr>)"
  using instantiate_loop [OF le_refl, of n ext e s]
  by (simp add: vst2_plugin_instantiate_def)

lemma init_channel_store:
  "store (init_channel ext plugin i s) =
     (store s)(plugin := (store s plugin)
        \<lparr>audio_output_memory :=
           (audio_output_memory (store s plugin))[i := Some (fst (g_malloc (vst2_buffer_size ext) s))],
         wet_dry_fifos := (wet_dry_fifos (store s plugin))[i := Some (lff_init CONTROL_FIFO_SIZE 4)],
         wet_dry_values := (wet_dry_values (store s plugin))[i := Some 1]\<rparr>)"
  by (simp add: init_channel_def Let_def split_def)

lemma init_channel_fields [simp]:
  "chain (init_channel ext plugin i s) = chain s"
  "chain_end (init_channel ext plugin i s) = chain_end s"
  "jack_client (init_channel ext plugin i s) = jack_client s"
  "trace (init_channel ext plugin i s) = trace s"
  by (simp_all add: init_channel_def Let_def split_def)

lemma init_channels_values:
  assumes "k \<le> n" "wet_dry_values (store s plugin) = replicate n None"
  shows "wet_dry_values (store (fold (init_channel ext plugin) [0..<k] s) plugin)
       = replicate k (Some 1) @ replicate (n - k) None"
  using assms
proof (induction k)
  case 0
  then show ?case by simp
next
  case (Suc k)
  then have k: "k < n" by simp
  have r: "replicate (n - k) None = None # replicate (n - Suc k) None" for x :: "'b option"
    using k by (simp add: Suc_diff_Suc flip: replicate_Suc)
  have "(replicate k (Some 1) @ replicate (n - k) None)[k := Some (1 :: LADSPA_Data)]
      = replicate (Suc k) (Some 1) @ replicate (n - Suc k) None"
    by (simp add: r list_update_append replicate_append_same)
  with Suc k show ?case
    by (simp add: init_channel_store)
qed

lemma init_copy_values:
  assumes "for_each ns (init_copy ext plugin effects) s = Inr s'"
  shows "wet_dry_values (store s' plugin) = wet_dry_values (store s plugin)"
proof (rule for_each_invariant [OF assms,
      where P = "\<lambda>t. wet_dry_values (store t plugin) = wet_dry_values (store s plugin)"])
  show "wet_dry_values (store s plugin) = wet_dry_values (store s plugin)" ..
next
  fix i a b
  assume a: "wet_dry_values (store a plugin) = wet_dry_values (store s plugin)"
    and b: "init_copy ext plugin effects i a = Inr b"
  from b obtain eff where "vst2_plugin_init_holder ext plugin i eff a = Inr b"
    by (auto simp: init_copy_def split: if_splits option.splits)
  from init_holder_frame [OF this] obtain hs where
    "store b = (store a)(plugin := (store a plugin)\<lparr>holders := hs\<rparr>)" by blast
  with a show "wet_dry_values (store b plugin) = wet_dry_values (store s plugin)" by simp
qed

lemma new_Some_unfold:
  assumes "vst2_plugin_new ext d channels s = Inr (Some plugin, s')"
  shows "\<exists>effects s8 s11.
      wet_dry_values (store s8 plugin) = replicate channels None
    \<and> store s11 = (store (fold (init_channel ext plugin) [0..<channels] s8))
         (plugin := (store (fold (init_channel ext plugin) [0..<channels] s8) plugin)
            \<lparr>holders := replicate (vst2_plugin_desc_get_copies ext d channels) None\<rparr>)
    \<and> for_each [0..<vst2_plugin_desc_get_copies ext d channels]
         (init_copy ext plugin effects) s11 = Inr s'"
proof -
  let ?n = "vst2_plugin_desc_get_copies ext d channels"
  from assms have e: "desc_effect d \<noteq> None"
    by (auto simp: vst2_plugin_new_def vst2_plugin_open_plugin_def Let_def split: if_splits)
  then have o: "vst2_plugin_open_plugin d = (0, desc_effect d)"
    by (auto simp: vst2_plugin_open_plugin_def Let_def)
  obtain p1 s1 where g1: "g_malloc ?n s = (p1, s1)" by fastforce
  from assms obtain effects s2 where i: "vst2_plugin_instantiate ext (desc_effect d) ?n
       (replicate ?n None) s1 = Inr (0, effects, s2)"
    unfolding vst2_plugin_new_def Let_def
    by (simp only: o g1 prod.case) (auto split: sum.splits if_splits dest: instantiate_err)
  obtain s3 where g3: "g_malloc 1 s2 = (Some (brk s2), s3)" by (simp add: g_malloc_def)
  define s4 where "s4 = s3\<lparr>store := (store s3)(brk s2 := (store s3 (brk s2))
       \<lparr>desc := d, copies := ?n, enabled := False, next_plugin := None, prev_plugin := None,
        wet_dry_enabled := False\<rparr>)\<rparr>"
  obtain p5 s5 where g5: "g_malloc channels s4 = (p5, s5)" by fastforce
  obtain p6 s6 where g6: "g_malloc channels s5 = (p6, s6)" by fastforce
  obtain p7 s7 where g7: "g_malloc channels s6 = (p7, s7)" by fastforce
  define s8 where "s8 = s7\<lparr>store := (store s7)(brk s2 := (store s7 (brk s2))
       \<lparr>audio_output_memory := replicate channels None,
        wet_dry_fifos := replicate channels None,
        wet_dry_values := replicate channels None\<rparr>)\<rparr>"
  define s9 where "s9 = fold (init_channel ext (brk s2)) [0..<channels] s8"
  obtain p10 s10 where g10: "g_malloc ?n s9 = (p10, s10)" by fastforce
  define s11 where "s11 = s10\<lparr>store := (store s10)(brk s2 := (store s10 (brk s2))
       \<lparr>holders := replicate ?n None\<rparr>)\<rparr>"
  from assms have "(case for_each [0..<?n] (init_copy ext (brk s2) effects) s11 of
        Inl e \<Rightarrow> Inl e | Inr s12 \<Rightarrow> Inr (Some (brk s2), s12)) = Inr (Some plugin, s')"
    unfolding vst2_plugin_new_def Let_def
    by (simp only: o g1 i g3 g5 g6 g7 g10 prod.case sum.case option.case
        s4_def [symmetric] s8_def [symmetric] s9_def [symmetric] s11_def [symmetric]
        refl if_False if_True simp_thms)
  then have p: "plugin = brk s2" and l: "for_each [0..<?n] (init_copy ext plugin effects) s11 = Inr s'"
    by (auto split: sum.splits)
  have "store s10 = store s9" using g10 by (auto simp: g_malloc_def split: if_splits)
  then have "store s11 = (store s9)(plugin := (store s9 plugin)\<lparr>holders := replicate ?n None\<rparr>)"
    by (simp add: s11_def p)
  moreover have "wet_dry_values (store s8 plugin) = replicate channels None"
    by (simp add: s8_def p)
  ultimately show ?thesis using l unfolding s9_def p by blast
qed

lemma new_values:
  assumes "vst2_plugin_new ext d channels s = Inr (Some plugin, s')"
  shows "wet_dry_values (store s' plugin) = replicate channels (Some 1)"
proof -
  from new_Some_unfold [OF assms] obtain effects s8 s11 where
    a: "wet_dry_values (store s8 plugin) = replicate channels None"
    and b: "store s11 = (store (fold (init_channel ext plugin) [0..<channels] s8))
         (plugin := (store (fold (init_channel ext plugin) [0..<channels] s8) plugin)
            \<lparr>holders := replicate (vst2_plugin_desc_get_copies ext d channels) None\<rparr>)"
    and c: "for_each [0..<vst2_plugin_desc_get_copies ext d channels]
         (init_copy ext plugin effects) s11 = Inr s'"
    by blast
  from init_channels_values [OF le_refl a, of ext] b
  have "wet_dry_values (store s11 plugin) = replicate channels (Some 1)" by simp
  with init_copy_values [OF c] show ?thesis by simp
qed

lemma init_channels_desc:
  "desc (store (fold (init_channel ext plugin) ns s) q) = desc (store s q)"
  by (induction ns arbitrary: s) (simp_all add: init_channel_store)

lemma init_channels_jack:
  "jack_client (fold (init_channel ext plugin) ns s) = jack_client s"
  by (induction ns arbitrary: s) simp_all

lemma init_channels_chain:
  "chain (fold (init_channel ext plugin) ns s) = chain s"
  "chain_end (fold (init_channel ext plugin) ns s) = chain_end s"
  by (induction ns arbitrary: s) simp_all

lemma new_succeeds:
  assumes "desc_effect d = Some e"
    "control_port_count d \<le> length (control_port_indicies d)"
    "status_port_count d \<le> control_port_count d \<or> control_port_count d = 0"
    "jack_client s = None \<or> aux_channels d = 0
       \<or> (\<forall>tr n inp. jack_port_register ext tr n inp \<noteq> None)"
  shows "\<exists>plugin s'. vst2_plugin_new ext d channels s = Inr (Some plugin, s')"
proof -
  let ?n = "vst2_plugin_desc_get_copies ext d channels"
  have o: "vst2_plugin_open_plugin d = (0, desc_effect d)"
    using assms(1) by (simp add: vst2_plugin_open_plugin_def Let_def)
  obtain p1 s1 where g1: "g_malloc ?n s = (p1, s1)" by fastforce
  define s2 where "s2 = s1\<lparr>trace := trace s1 @ replicate ?n (SetSampleRate e (real (vst2_sample_rate ext)))\<rparr>"
  have i: "vst2_plugin_instantiate ext (desc_effect d) ?n (replicate ?n None) s1
      = Inr (0, replicate ?n (Some (Some e)), s2)"
    by (simp add: assms(1) instantiate_Some s2_def)
  obtain s3 where g3: "g_malloc 1 s2 = (Some (brk s2), s3)" by (simp add: g_malloc_def)
  let ?p = "brk s2"
  define s4 where "s4 = s3\<lparr>store := (store s3)(?p := (store s3 ?p)
       \<lparr>desc := d, copies := ?n, enabled := False, next_plugin := None, prev_plugin := None,
        wet_dry_enabled := False\<rparr>)\<rparr>"
  obtain p5 s5 where g5: "g_malloc channels s4 = (p5, s5)" by fastforce
  obtain p6 s6 where g6: "g_malloc channels s5 = (p6, s6)" by fastforce
  obtain p7 s7 where g7: "g_malloc channels s6 = (p7, s7)" by fastforce
  define s8 where "s8 = s7\<lparr>store := (store s7)(?p := (store s7 ?p)
       \<lparr>audio_output_memory := replicate channels None,
        wet_dry_fifos := replicate channels None,
        wet_dry_values := replicate channels None\<rparr>)\<rparr>"
  define s9 where "s9 = fold (init_channel ext ?p) [0..<channels] s8"
  obtain p10 s10 where g10: "g_malloc ?n s9 = (p10, s10)" by fastforce
  define s11 where "s11 = s10\<lparr>store := (store s10)(?p := (store s10 ?p)
       \<lparr>holders := replicate ?n None\<rparr>)\<rparr>"
  note q = quiet_g_malloc [OF g1] quiet_g_malloc [OF g3] quiet_g_malloc [OF g5]
    quiet_g_malloc [OF g6] quiet_g_malloc [OF g7] quiet_g_malloc [OF g10]
  have j: "jack_client s11 = jack_client s"
    using q by (simp add: s11_def s9_def init_channels_jack s8_def s4_def s2_def quiet_def)
  have dd: "desc (store s11 ?p) = d"
    using q by (simp add: s11_def s9_def init_channels_desc s8_def s4_def quiet_def)
  let ?P = "\<lambda>t :: state. desc (store t ?p) = d \<and> length (holders (store t ?p)) = ?n
     \<and> jack_client t = jack_client s"
  have "\<exists>y. for_each [0..<?n] (init_copy ext ?p (replicate ?n (Some (Some e)))) s11 = Inr y \<and> ?P y"
  proof (rule for_each_total)
    show "?P s11" using j dd by (simp add: s11_def)
  next
    fix i a assume i: "i \<in> set [0..<?n]" and a: "?P a"
    from a assms(4) have r: "jack_client a = None \<or> aux_channels d = 0
       \<or> (\<forall>tr n inp. jack_port_register ext tr n inp \<noteq> None)" by simp
    from i a have c: "i < length (holders (store a ?p))" by simp
    from a have da: "desc (store a ?p) = d" by simp
    from init_holder_spec [OF assms(2,3) da c r, of e] obtain b ports where
      b: "vst2_plugin_init_holder ext ?p i (Some e) a = Inr b"
      "store b = (store a)(?p := (store a ?p)
         \<lparr>holders := (holders (store a ?p))[i := Some
            \<lparr>effect = Some e,
             ui_control_fifos = replicate (control_port_count d) (Some (lff_init CONTROL_FIFO_SIZE 4)),
             control_memory = map (\<lambda>i. Some (default_of ext d i)) [0..<control_port_count d],
             status_memory = replicate (status_port_count d) None,
             aux_ports = ports\<rparr>]\<rparr>)"
      "jack_client b = jack_client a"
      by blast
    from i have "init_copy ext ?p (replicate ?n (Some (Some e))) i a
        = vst2_plugin_init_holder ext ?p i (Some e) a"
      by (simp add: init_copy_def)
    with b a show "\<exists>b. init_copy ext ?p (replicate ?n (Some (Some e))) i a = Inr b \<and> ?P b"
      by simp
  qed
  then obtain s12 where l: "for_each [0..<?n] (init_copy ext ?p (replicate ?n (Some (Some e)))) s11
      = Inr s12" by blast
  have "vst2_plugin_new ext d channels s = Inr (Some ?p, s12)"
    unfolding vst2_plugin_new_def Let_def
    by (simp only: o g1 i g3 g5 g6 g7 g10 l prod.case sum.case option.case
        s4_def [symmetric] s8_def [symmetric] s9_def [symmetric] s11_def [symmetric]
        refl if_False if_True simp_thms)
  then show ?thesis by blast
qed

lemma new_None:
  assumes "vst2_plugin_new ext d channels s = Inr (None, s')"
  shows "desc_effect d = None \<and> s' = s"
proof (cases "desc_effect d")
  case None
  with assms show ?thesis
    by (simp add: vst2_plugin_new_def vst2_plugin_open_plugin_def Let_def)
next
  case (Some e)
  let ?n = "vst2_plugin_desc_get_copies ext d channels"
  have o: "vst2_plugin_open_plugin d = (0, desc_effect d)"
    using Some by (simp add: vst2_plugin_open_plugin_def Let_def)
  obtain p1 s1 where g1: "g_malloc ?n s = (p1, s1)" by fastforce
  from assms obtain effects s2 where i: "vst2_plugin_instantiate ext (desc_effect d) ?n
       (replicate ?n None) s1 = Inr (0, effects, s2)"
    unfolding vst2_plugin_new_def Let_def
    by (simp only: o g1 prod.case) (auto split: sum.splits if_splits dest: instantiate_err)
  obtain s3 where g3: "g_malloc 1 s2 = (Some (brk s2), s3)" by (simp add: g_malloc_def)
  from assms have False
    unfolding vst2_plugin_new_def Let_def
    by (simp only: o g1 i g3 prod.case sum.case option.case refl if_False if_True simp_thms)
      (auto split: sum.splits prod.splits)
  then show ?thesis ..
qed

subsection \<open>The example descriptor\<close>

lemma example_push: "push_of example_externals example_desc 100 0 = SetParameter 100 2 (1 / 2)"
  by (simp add: push_of_def parameter_index_def default_of_def example_externals_def example_desc_def)

lemma seed_rack_ready:
  "control_port_count example_desc \<le> length (control_port_indicies example_desc)"
  "status_port_count example_desc \<le> control_port_count example_desc
     \<or> control_port_count example_desc = 0"
  "desc (store seed_rack 4) = example_desc"
  "0 < length (holders (store seed_rack 4))"
  "jack_client seed_rack = None \<or> aux_channels example_desc = 0
     \<or> (\<forall>tr n inp. jack_port_register example_externals tr n inp \<noteq> None)"
  by (simp_all add: example_desc_def seed_rack_def example_defs example_externals_def)

text \<open>With a control port and more status ports than control ports, the loop over
  \<open>status_port_count\<close> leaves the arrays it indexes: after the pushes for the indices
  below \<open>control_port_count\<close> it reads \<open>control_memory\<close> at the index
  \<open>control_port_count\<close>, one past the last element.\<close>

lemma init_holder_reads_past_control_ports:
  assumes "control_port_count d \<le> length (control_port_indicies d)"
    "0 < control_port_count d" "control_port_count d < status_port_count d"
    "desc (store s plugin) = d"
  shows "vst2_plugin_init_holder ext plugin copy (Some e) s = Inl Undefined_Behaviour"
proof -
  let ?n = "control_port_count d"
  let ?m = "status_port_count d"
  let ?mem = "map (\<lambda>i. Some (default_of ext d i)) [0..<?n]"
  let ?fifos = "replicate ?n (Some (lff_init CONTROL_FIFO_SIZE 4))"
  obtain p1 s1 where g1: "g_malloc ?n s = (p1, s1)" by fastforce
  obtain p2 s2 where g2: "g_malloc ?n s1 = (p2, s2)" by fastforce
  define s3 where "s3 = s2\<lparr>trace := trace s2 @ map (push_of ext d e) [0..<?n]\<rparr>"
  obtain p4 s4 where g4: "g_malloc ?m s3 = (p4, s4)" by fastforce
  define s5 where "s5 = s4\<lparr>trace := trace s4 @ map (push_of ext d e) [0..<?n]\<rparr>"
  have seed: "for_each [0..<?n] (seed_control ext d (Some e)) (replicate ?n None, replicate ?n None, s2)
      = Inr (?fifos, ?mem, s3)"
    using seed_loop [OF le_refl assms(1), of ext e s2] by (simp add: s3_def)
  have first: "for_each [0..<?n] (push_again ext d (Some e) ?mem) s4 = Inr s5"
    using push_again_loop [OF le_refl assms(1), of ext e s4] by (simp add: s5_def)
  have past: "push_again ext d (Some e) ?mem ?n s5 = Inl Undefined_Behaviour"
    by (simp add: push_again_def)
  have split: "[0..<?m] = [0..<?n] @ ?n # [Suc ?n..<?m]"
    using assms(3) upt_add_eq_append [of 0 "control_port_count d" "status_port_count d - control_port_count d"]
    by (simp add: upt_conv_Cons)
  have loop: "for_each [0..<?m] (push_again ext d (Some e) ?mem) s4 = Inl Undefined_Behaviour"
    unfolding split by (simp add: for_each_append first past)
  have ne: "?mem \<noteq> []"
    using assms(2) by simp
  have again: "(if ?mem \<noteq> [] then for_each [0..<?m] (push_again ext d (Some e) ?mem) s4 else Inr s4)
      = Inl Undefined_Behaviour"
    using ne loop by simp
  show ?thesis
    unfolding vst2_plugin_init_holder_def Let_def
    by (simp only: assms(4) g1 g2 g4 prod.case sum.case seed again)
qed

text \<open>The example descriptor with a second status port.\<close>

lemma example_reads_past_control_ports:
  "vst2_plugin_init_holder example_externals 4 0 (Some 100)
     (seed_rack\<lparr>store := (store seed_rack)
        (4 := (store seed_rack 4)\<lparr>desc := example_desc\<lparr>status_port_count := 2\<rparr>\<rparr>)\<rparr>)
   = Inl Undefined_Behaviour"
  by (rule init_holder_reads_past_control_ports) (simp_all add: example_desc_def)

section \<open>The properties\<close>

text \<open>
  \<^bold>\<open>C1\<close>. Start from a context with an empty chain and apply any finite sequence of
  append, remove, move and replace operations, each under its precondition. Then after
  every operation of the sequence (after the first \<open>k\<close> of them, for every \<open>k\<close>) the
  operations have returned, and the chain is acyclic and doubly consistent: the walk from
  the head along \<^verbatim>\<open>next\<close> yields a list \<open>xs\<close> of pairwise different nodes, the walk from
  the tail along \<^verbatim>\<open>prev\<close> yields the reverse of \<open>xs\<close>, \<open>n.next = m\<close> implies
  \<open>m.prev = n\<close> and conversely for linked nodes, \<open>head.prev\<close> is \<^verbatim>\<open>NULL\<close> and
  \<open>tail.next\<close> is \<^verbatim>\<open>NULL\<close>. When the audio server client is active, the plugin
  objects are assumed well formed (\<open>aux_ready\<close>): the holder array of a plugin has
  \<open>copies\<close> initialised entries, and plugins of one descriptor id have the same number
  of copies.
\<close>

theorem chain_stays_consistent:
  assumes "chain s0 = None" "chain_end s0 = None" "aux_ready s0" "admissible s0 ops"
  shows "\<exists>s xs. run s0 (take k ops) = Some s
    \<and> walk (get_next s) (chain s) = Some xs
    \<and> walk (get_prev s) (chain_end s) = Some (rev xs)
    \<and> distinct xs
    \<and> (\<forall>n\<in>set xs. \<forall>m. get_next s n = Some m \<longrightarrow> get_prev s m = Some n)
    \<and> (\<forall>m\<in>set xs. \<forall>n. get_prev s m = Some n \<longrightarrow> get_next s n = Some m)
    \<and> (\<forall>h. chain s = Some h \<longrightarrow> get_prev s h = None)
    \<and> (\<forall>t. chain_end s = Some t \<longrightarrow> get_next s t = None)"
proof -
  from assms(1,2) have "dll s0 []" by (simp add: dll_def)
  have "admissible s0 (take k ops)" using assms(4) by (rule admissible_take)
  from run_ok [OF \<open>dll s0 []\<close> assms(3) this]
  obtain s xs where s: "run s0 (take k ops) = Some s" "dll s xs" by blast
  from s(2) have "walk (get_next s) (chain s) = Some xs"
    "walk (get_prev s) (chain_end s) = Some (rev xs)" "distinct xs"
    by (simp_all add: dll_def path_walk)
  with s(1) dll_next_prev [OF s(2)] dll_prev_next [OF s(2)] dll_head_tail [OF s(2)]
  show ?thesis by blast
qed

theorem chain_stays_consistent_witness:
  "chain empty_rack = None \<and> chain_end empty_rack = None \<and> aux_ready empty_rack
   \<and> admissible empty_rack example_ops
   \<and> (\<exists>s xs. run empty_rack (take 6 example_ops) = Some s
    \<and> walk (get_next s) (chain s) = Some xs
    \<and> walk (get_prev s) (chain_end s) = Some (rev xs)
    \<and> distinct xs
    \<and> (\<forall>n\<in>set xs. \<forall>m. get_next s n = Some m \<longrightarrow> get_prev s m = Some n)
    \<and> (\<forall>m\<in>set xs. \<forall>n. get_prev s m = Some n \<longrightarrow> get_next s n = Some m)
    \<and> (\<forall>h. chain s = Some h \<longrightarrow> get_prev s h = None)
    \<and> (\<forall>t. chain_end s = Some t \<longrightarrow> get_next s t = None))"
proof -
  have 1: "chain empty_rack = None" and 2: "chain_end empty_rack = None"
    by (simp_all add: empty_rack_def)
  from chain_stays_consistent [OF 1 2 example_rack_ready(2) example_ops_admissible, of 6]
  show ?thesis using 1 2 example_rack_ready(2) example_ops_admissible by blast
qed

text \<open>
  \<^bold>\<open>C2\<close>, as stated, fails. In the example rack the three linked plugins have the same
  descriptor id. When plugin 1 is removed, plugin 3 is downstream and of the same id, but
  it ends with the ports plugin 2 held, not with those of the removed plugin.
\<close>

theorem remove_shifts_aux_ports_counterexample:
  "dll example_rack [1, 2, 3] \<and> jack_client example_rack \<noteq> None
    \<and> aux_channels (desc (store example_rack 1)) > 0
    \<and> desc_id (desc (store example_rack 3)) = desc_id (desc (store example_rack 1))
    \<and> aux_ports_of example_rack 1 = [Some (Some [Some 11]), Some (Some [Some 12])]
    \<and> (\<exists>s'. vst2_process_remove_plugin example_rack 1 = Some (s', 1)
          \<and> dll s' [2, 3]
          \<and> aux_ports_of s' 3 = [Some (Some [Some 21]), Some (Some [Some 22])])"
proof -
  have d: "dll example_rack ([] @ 1 # [2, 3])" using example_rack_dll by simp
  have j: "jack_client example_rack \<noteq> None" "aux_channels (desc (store example_rack 1)) > 0"
    "desc_id (desc (store example_rack 3)) = desc_id (desc (store example_rack 1))"
    by (simp_all add: example_defs)
  have m: "same_id example_rack 1 [2, 3] = [2, 3]"
    by (simp add: same_id_def example_defs)
  have a: "aux_ports_of example_rack 1 = [Some (Some [Some 11]), Some (Some [Some 12])]"
    "aux_ports_of example_rack 2 = [Some (Some [Some 21]), Some (Some [Some 22])]"
    by (simp_all add: aux_ports_of_def example_defs)
  from remove_spec [OF d example_rack_ready(1)] j m obtain s' where
    "vst2_process_remove_plugin example_rack 1 = Some (s', 1)" "dll s' [2, 3]"
    "map (aux_ports_of s') ([2, 3] @ [1]) = map (aux_ports_of example_rack) (1 # [2, 3])"
    by auto
  with a j example_rack_dll show ?thesis by simp
qed

text \<open>
  \<^bold>\<open>C2\<close>, amended. When remove is called on a linked node whose descriptor declares
  auxiliary channels while the audio server client is active, the call returns, and the
  ports are handed down the chain: of the downstream nodes with the removed node's
  descriptor id, the first holds the ports the removed node held before the call, each
  later one holds the ports that the one before it held before the call, and the removed
  node ends with the ports of the last of them. All other nodes keep their ports.
\<close>

theorem remove_hands_aux_ports_down:
  assumes "dll s (as @ plugin # bs)" "wf_store s" "jack_client s \<noteq> None"
    "aux_channels (desc (store s plugin)) > 0"
  shows "\<exists>s'. vst2_process_remove_plugin s plugin = Some (s', plugin)
    \<and> (\<forall>i<length (same_id s plugin bs).
          aux_ports_of s' (same_id s plugin bs ! i)
            = aux_ports_of s ((plugin # same_id s plugin bs) ! i))
    \<and> aux_ports_of s' plugin = aux_ports_of s (last (plugin # same_id s plugin bs))
    \<and> (\<forall>q. q \<noteq> plugin \<and> q \<notin> set (same_id s plugin bs)
          \<longrightarrow> aux_ports_of s' q = aux_ports_of s q)"
proof -
  from assms(2) have "aux_ready s" by (simp add: aux_ready_def)
  from remove_spec [OF assms(1) this] assms(3,4) obtain s' where s':
    "vst2_process_remove_plugin s plugin = Some (s', plugin)"
    "map (aux_ports_of s') (same_id s plugin bs @ [plugin])
       = map (aux_ports_of s) (plugin # same_id s plugin bs)"
    "\<forall>q. q \<noteq> plugin \<and> q \<notin> set (same_id s plugin bs)
          \<longrightarrow> aux_ports_of s' q = aux_ports_of s q"
    by auto
  from s'(1) handed_down [OF s'(2)] s'(3) show ?thesis by blast
qed

theorem remove_hands_aux_ports_down_witness:
  "dll example_rack ([] @ 1 # [2, 3]) \<and> wf_store example_rack \<and> jack_client example_rack \<noteq> None
    \<and> aux_channels (desc (store example_rack 1)) > 0
    \<and> same_id example_rack 1 [2, 3] = [2, 3]
    \<and> (\<exists>s'. vst2_process_remove_plugin example_rack 1 = Some (s', 1)
       \<and> aux_ports_of s' 2 = aux_ports_of example_rack 1
       \<and> aux_ports_of s' 3 = aux_ports_of example_rack 2
       \<and> aux_ports_of s' 1 = aux_ports_of example_rack 3
       \<and> aux_ports_of s' 4 = aux_ports_of example_rack 4)"
proof -
  have d: "dll example_rack ([] @ 1 # [2, 3])" using example_rack_dll by simp
  have j: "jack_client example_rack \<noteq> None" "aux_channels (desc (store example_rack 1)) > 0"
    by (simp_all add: example_defs)
  have m: "same_id example_rack 1 [2, 3] = [2, 3]"
    by (simp add: same_id_def example_defs)
  from remove_hands_aux_ports_down [OF d example_rack_wf j] obtain s' where s':
    "vst2_process_remove_plugin example_rack 1 = Some (s', 1)"
    "\<forall>i<length [2, 3 :: nat]. aux_ports_of s' ([2, 3] ! i)
            = aux_ports_of example_rack ((1 # [2, 3]) ! i)"
    "aux_ports_of s' 1 = aux_ports_of example_rack (last (1 # [2, 3]))"
    "\<forall>q. q \<noteq> 1 \<and> q \<notin> set [2, 3] \<longrightarrow> aux_ports_of s' q = aux_ports_of example_rack q"
    unfolding m by blast
  from s'(2) [rule_format, of 0] s'(2) [rule_format, of 1] s'(3) s'(4) [rule_format, of 4]
  have "aux_ports_of s' 2 = aux_ports_of example_rack 1"
    "aux_ports_of s' 3 = aux_ports_of example_rack 2"
    "aux_ports_of s' 1 = aux_ports_of example_rack 3"
    "aux_ports_of s' 4 = aux_ports_of example_rack 4"
    by simp_all
  with s'(1) d example_rack_wf j m show ?thesis by blast
qed

text \<open>
  \<^bold>\<open>C3\<close> does not hold of the code. The example descriptor has one control port and
  one status port. Holder initialisation of copy 0 of plugin 4 returns, and the holder's
  parameter mirror (\<open>control_memory\<close>) holds the default value of the control port, as
  the claim says; but the default has been pushed into the native instance twice, not
  exactly once. The second call comes from the loop that follows the allocation of
  \<open>status_memory\<close>: it runs over \<open>status_port_count\<close> and indexes
  \<open>control_port_indicies\<close> and \<open>control_memory\<close>, so it pushes again the values the
  first loop has pushed, and with more status ports than control ports it reads past the
  end of both arrays (\<open>init_holder_reads_past_control_ports\<close>).
\<close>

theorem init_holder_pushes_default_twice:
  "control_port_count (desc (store seed_rack 4)) = 1
   \<and> status_port_count (desc (store seed_rack 4)) = 1
   \<and> (\<exists>s' h. vst2_plugin_init_holder example_externals 4 0 (Some 100) seed_rack = Inr s'
        \<and> holders (store s' 4) ! 0 = Some h
        \<and> control_memory h = [Some (1 / 2)]
        \<and> vst2_plugin_desc_get_default_control_value example_externals
             (desc (store seed_rack 4)) 4 (vst2_sample_rate example_externals) = 1 / 2
        \<and> pushes_since seed_rack s' = [SetParameter 100 2 (1 / 2), SetParameter 100 2 (1 / 2)])"
proof -
  from init_holder_spec [OF seed_rack_ready, of 100] obtain s' ports where s':
    "vst2_plugin_init_holder example_externals 4 0 (Some 100) seed_rack = Inr s'"
    "store s' = (store seed_rack)(4 := (store seed_rack 4)
         \<lparr>holders := (holders (store seed_rack 4))[0 := Some
            \<lparr>effect = Some 100,
             ui_control_fifos = replicate (control_port_count example_desc)
               (Some (lff_init CONTROL_FIFO_SIZE 4)),
             control_memory = map (\<lambda>i. Some (default_of example_externals example_desc i))
               [0..<control_port_count example_desc],
             status_memory = replicate (status_port_count example_desc) None,
             aux_ports = ports\<rparr>]\<rparr>)"
    "pushes_since seed_rack s' = map (push_of example_externals example_desc 100)
        [0..<control_port_count example_desc]
      @ (if control_port_count example_desc = 0 then []
         else map (push_of example_externals example_desc 100) [0..<status_port_count example_desc])"
    by blast
  let ?h = "\<lparr>effect = Some 100,
             ui_control_fifos = replicate (control_port_count example_desc)
               (Some (lff_init CONTROL_FIFO_SIZE 4)),
             control_memory = map (\<lambda>i. Some (default_of example_externals example_desc i))
               [0..<control_port_count example_desc],
             status_memory = replicate (status_port_count example_desc) None,
             aux_ports = ports\<rparr>"
  have c: "control_port_count example_desc = 1" "status_port_count example_desc = 1"
    "default_of example_externals example_desc 0 = 1 / 2"
    by (simp_all add: example_desc_def default_of_def example_externals_def)
  have 1: "holders (store s' 4) ! 0 = Some ?h"
    using seed_rack_ready(4) by (simp add: s'(2))
  have 2: "control_memory ?h = [Some (1 / 2)]"
    by (simp add: c)
  have 3: "vst2_plugin_desc_get_default_control_value example_externals
             (desc (store seed_rack 4)) 4 (vst2_sample_rate example_externals) = 1 / 2"
    by (simp add: example_externals_def)
  have 4: "pushes_since seed_rack s' = [SetParameter 100 2 (1 / 2), SetParameter 100 2 (1 / 2)]"
    by (simp add: s'(3) c example_push)
  have "\<exists>s' h. vst2_plugin_init_holder example_externals 4 0 (Some 100) seed_rack = Inr s'
        \<and> holders (store s' 4) ! 0 = Some h
        \<and> control_memory h = [Some (1 / 2)]
        \<and> vst2_plugin_desc_get_default_control_value example_externals
             (desc (store seed_rack 4)) 4 (vst2_sample_rate example_externals) = 1 / 2
        \<and> pushes_since seed_rack s' = [SetParameter 100 2 (1 / 2), SetParameter 100 2 (1 / 2)]"
  proof (intro exI conjI)
    show "vst2_plugin_init_holder example_externals 4 0 (Some 100) seed_rack = Inr s'" by fact
    show "holders (store s' 4) ! 0 = Some ?h" by fact
    show "control_memory ?h = [Some (1 / 2)]" by fact
  qed (fact 3 4)+
  then show ?thesis by (simp add: seed_rack_ready(3) c)
qed

text \<open>
  \<^bold>\<open>C4\<close>. In a chain, moving the head node up or the tail node down returns and leaves
  the whole state as it was: the order, every link, the head and the tail reference.
\<close>

theorem move_at_boundary_is_noop:
  assumes "dll s xs"
  shows "(chain s = Some plugin \<longrightarrow> vst2_process_move_plugin s plugin True = Some s)
    \<and> (chain_end s = Some plugin \<longrightarrow> vst2_process_move_plugin s plugin False = Some s)"
  using dll_head_tail [OF assms] by (auto intro: move_boundary)

theorem move_at_boundary_is_noop_witness:
  "dll example_rack [1, 2, 3] \<and> chain example_rack = Some 1 \<and> chain_end example_rack = Some 3
    \<and> vst2_process_move_plugin example_rack 1 True = Some example_rack
    \<and> vst2_process_move_plugin example_rack 3 False = Some example_rack"
proof -
  have h: "chain example_rack = Some 1" "chain_end example_rack = Some 3"
    by (simp_all add: example_rack_def)
  from move_at_boundary_is_noop [OF example_rack_dll, of 1]
    move_at_boundary_is_noop [OF example_rack_dll, of 3] h example_rack_dll
  show ?thesis by simp
qed

text \<open>
  \<^bold>\<open>C5\<close>. Replace puts the new node \<open>D\<close> exactly where \<open>B\<close> was. In the chain
  \<open>as @ B # cs\<close>, with \<open>D\<close> not in it (and with well formed plugin objects when the
  audio server client is active), the call returns \<open>B\<close>, the chain becomes
  \<open>as @ D # cs\<close>, \<open>D\<close> takes the \<^verbatim>\<open>prev\<close> and \<^verbatim>\<open>next\<close> of \<open>B\<close>, the predecessor's
  \<^verbatim>\<open>next\<close> and the successor's \<^verbatim>\<open>prev\<close> point at \<open>D\<close>, and the head or the tail
  reference is \<open>D\<close> when \<open>B\<close> had no predecessor or no successor.
\<close>

theorem change_plugin_takes_the_position:
  assumes "dll s (as @ B # cs)" "D \<notin> set (as @ B # cs)" "aux_ready s"
  shows "\<exists>s'. vst2_process_change_plugin s B D = Some (s', B)
    \<and> dll s' (as @ D # cs)
    \<and> get_prev s' D = get_prev s B \<and> get_next s' D = get_next s B
    \<and> (case get_prev s B of
          Some A \<Rightarrow> get_next s' A = Some D \<and> chain s' = chain s
        | None \<Rightarrow> chain s' = Some D)
    \<and> (case get_next s B of
          Some C \<Rightarrow> get_prev s' C = Some D \<and> chain_end s' = chain_end s
        | None \<Rightarrow> chain_end s' = Some D)"
proof -
  from change_spec [OF assms] obtain s' where s':
    "vst2_process_change_plugin s B D = Some (s', B)" "dll s' (as @ D # cs)"
    by blast
  note old = dll_links [OF assms(1)] dll_ends [OF assms(1)]
  note new = dll_links [OF s'(2)] dll_ends [OF s'(2)]
  have 1: "get_prev s' D = get_prev s B" "get_next s' D = get_next s B"
    using old new by simp_all
  have 2: "case get_prev s B of
          Some A \<Rightarrow> get_next s' A = Some D \<and> chain s' = chain s
        | None \<Rightarrow> chain s' = Some D"
  proof (cases as rule: rev_cases)
    case Nil
    with old new show ?thesis by simp
  next
    case (snoc as' A)
    with s'(2) have "dll s' (as' @ A # D # cs)" by simp
    from dll_links(1) [OF this] old new snoc show ?thesis by (cases as') simp_all
  qed
  have 3: "case get_next s B of
          Some C \<Rightarrow> get_prev s' C = Some D \<and> chain_end s' = chain_end s
        | None \<Rightarrow> chain_end s' = Some D"
  proof (cases cs)
    case Nil
    with old new show ?thesis by simp
  next
    case (Cons C cs')
    with s'(2) have "dll s' ((as @ [D]) @ C # cs')" by simp
    from dll_links(2) [OF this] old new Cons show ?thesis by simp
  qed
  from s' 1 2 3 show ?thesis by blast
qed

theorem change_plugin_takes_the_position_witness:
  "dll example_rack ([1] @ 2 # [3]) \<and> 4 \<notin> set ([1] @ 2 # [3 :: nat]) \<and> aux_ready example_rack
    \<and> (\<exists>s'. vst2_process_change_plugin example_rack 2 4 = Some (s', 2)
      \<and> dll s' ([1] @ 4 # [3])
      \<and> get_prev s' 4 = Some 1 \<and> get_next s' 4 = Some 3
      \<and> get_next s' 1 = Some 4 \<and> get_prev s' 3 = Some 4
      \<and> chain s' = Some 1 \<and> chain_end s' = Some 3)"
proof -
  have d: "dll example_rack ([1] @ 2 # [3])" using example_rack_dll by simp
  have m: "4 \<notin> set ([1] @ 2 # [3 :: nat])" by simp
  have l: "get_prev example_rack 2 = Some 1" "get_next example_rack 2 = Some 3"
    "chain example_rack = Some 1" "chain_end example_rack = Some 3"
    by (simp_all add: get_prev_def get_next_def example_defs)
  from change_plugin_takes_the_position [OF d m example_rack_ready(1)] d m l example_rack_ready(1)
  show ?thesis by auto
qed

text \<open>
  \<^bold>\<open>C6\<close>. Move swaps \<open>X\<close> past its neighbour \<open>Y\<close> (the predecessor for up, the
  successor for down). With the audio server client active and \<open>X\<close> declaring
  auxiliary channels: if \<open>X\<close> and \<open>Y\<close> have the same descriptor id, the lists of their
  per-copy auxiliary port arrays are exchanged, copy by copy; otherwise both keep theirs.
\<close>

theorem move_exchanges_aux_ports:
  assumes "wf_store s" "jack_client s \<noteq> None" "aux_channels (desc (store s X)) > 0"
    "if up then dll s (as @ Y # X # bs) else dll s (as @ X # Y # bs)"
  shows "\<exists>s'. vst2_process_move_plugin s X up = Some s'
    \<and> (if up then dll s' (as @ X # Y # bs) else dll s' (as @ Y # X # bs))
    \<and> (if desc_id (desc (store s Y)) = desc_id (desc (store s X))
        then aux_ports_of s' X = aux_ports_of s Y \<and> aux_ports_of s' Y = aux_ports_of s X
        else aux_ports_of s' X = aux_ports_of s X \<and> aux_ports_of s' Y = aux_ports_of s Y)"
proof (cases up)
  case True
  from assms(1) have r: "aux_ready s" by (simp add: aux_ready_def)
  from True assms(4) have "dll s (as @ Y # X # bs)" by simp
  from move_up_spec [OF this r] assms(2,3) True show ?thesis
    by (auto split: if_splits)
next
  case False
  from assms(1) have r: "aux_ready s" by (simp add: aux_ready_def)
  from False assms(4) have "dll s (as @ X # Y # bs)" by simp
  from move_down_spec [OF this r] assms(2,3) False show ?thesis
    by (auto split: if_splits)
qed

theorem move_exchanges_aux_ports_witness:
  "wf_store example_rack \<and> jack_client example_rack \<noteq> None
    \<and> aux_channels (desc (store example_rack 2)) > 0
    \<and> dll example_rack ([] @ 1 # 2 # [3])
    \<and> desc_id (desc (store example_rack 1)) = desc_id (desc (store example_rack 2))
    \<and> (\<exists>s'. vst2_process_move_plugin example_rack 2 True = Some s'
      \<and> dll s' ([] @ 2 # 1 # [3])
      \<and> aux_ports_of s' 2 = [Some (Some [Some 11]), Some (Some [Some 12])]
      \<and> aux_ports_of s' 1 = [Some (Some [Some 21]), Some (Some [Some 22])])"
proof -
  have d: "if True then dll example_rack ([] @ 1 # 2 # [3]) else dll example_rack ([] @ 2 # 1 # [3])"
    using example_rack_dll by simp
  have j: "jack_client example_rack \<noteq> None" "aux_channels (desc (store example_rack 2)) > 0"
    "desc_id (desc (store example_rack 1)) = desc_id (desc (store example_rack 2))"
    by (simp_all add: example_defs)
  have a: "aux_ports_of example_rack 1 = [Some (Some [Some 11]), Some (Some [Some 12])]"
    "aux_ports_of example_rack 2 = [Some (Some [Some 21]), Some (Some [Some 22])]"
    by (simp_all add: aux_ports_of_def example_defs)
  from move_exchanges_aux_ports [OF example_rack_wf j(1,2) d] j a d example_rack_wf
  show ?thesis by auto
qed

text \<open>
  \<^bold>\<open>C7\<close>. Append puts the node at the tail. For a node that is not the tail already:
  afterwards \<open>node.prev\<close> is the old tail (\<^verbatim>\<open>NULL\<close> when the chain was empty),
  \<open>node.next\<close> is \<^verbatim>\<open>NULL\<close>, the old tail's \<^verbatim>\<open>next\<close> points at the node (the head
  does, and only then, when there was no tail), the tail reference is the node, and no
  other link changes. A chain \<open>xs\<close> that does not contain the node becomes \<open>xs @ [node]\<close>.
\<close>

theorem add_plugin_appends:
  assumes "chain_end s \<noteq> Some plugin"
  shows "get_prev (vst2_process_add_plugin s plugin) plugin = chain_end s
    \<and> get_next (vst2_process_add_plugin s plugin) plugin = None
    \<and> chain_end (vst2_process_add_plugin s plugin) = Some plugin
    \<and> (case chain_end s of
          Some e \<Rightarrow> get_next (vst2_process_add_plugin s plugin) e = Some plugin
            \<and> chain (vst2_process_add_plugin s plugin) = chain s
        | None \<Rightarrow> chain (vst2_process_add_plugin s plugin) = Some plugin)
    \<and> (\<forall>q. q \<noteq> plugin \<longrightarrow>
          get_prev (vst2_process_add_plugin s plugin) q = get_prev s q)
    \<and> (\<forall>q. q \<noteq> plugin \<and> chain_end s \<noteq> Some q \<longrightarrow>
          get_next (vst2_process_add_plugin s plugin) q = get_next s q)
    \<and> (\<forall>xs. dll s xs \<and> plugin \<notin> set xs \<longrightarrow>
          dll (vst2_process_add_plugin s plugin) (xs @ [plugin]))"
proof -
  have "\<forall>xs. dll s xs \<and> plugin \<notin> set xs \<longrightarrow>
          dll (vst2_process_add_plugin s plugin) (xs @ [plugin])"
    by (simp add: dll_add)
  moreover have "get_prev (vst2_process_add_plugin s plugin) plugin = chain_end s"
    by (simp add: vst2_process_add_plugin_def Let_def split: option.splits)
  moreover have "get_next (vst2_process_add_plugin s plugin) plugin = None"
    using assms by (auto simp: vst2_process_add_plugin_def Let_def split: option.splits)
  moreover have "chain_end (vst2_process_add_plugin s plugin) = Some plugin"
    by (simp add: vst2_process_add_plugin_def Let_def split: option.splits)
  moreover have "case chain_end s of
          Some e \<Rightarrow> get_next (vst2_process_add_plugin s plugin) e = Some plugin
            \<and> chain (vst2_process_add_plugin s plugin) = chain s
        | None \<Rightarrow> chain (vst2_process_add_plugin s plugin) = Some plugin"
    by (simp add: vst2_process_add_plugin_def Let_def split: option.splits)
  moreover have "\<forall>q. q \<noteq> plugin \<longrightarrow>
          get_prev (vst2_process_add_plugin s plugin) q = get_prev s q"
    by (simp add: vst2_process_add_plugin_def Let_def split: option.splits)
  moreover have "\<forall>q. q \<noteq> plugin \<and> chain_end s \<noteq> Some q \<longrightarrow>
          get_next (vst2_process_add_plugin s plugin) q = get_next s q"
    by (auto simp: vst2_process_add_plugin_def Let_def split: option.splits)
  ultimately show ?thesis by blast
qed

theorem add_plugin_appends_witness:
  "chain_end example_rack \<noteq> Some 4
    \<and> get_prev (vst2_process_add_plugin example_rack 4) 4 = Some 3
    \<and> get_next (vst2_process_add_plugin example_rack 4) 4 = None
    \<and> chain_end (vst2_process_add_plugin example_rack 4) = Some 4
    \<and> get_next (vst2_process_add_plugin example_rack 4) 3 = Some 4
    \<and> chain (vst2_process_add_plugin example_rack 4) = Some 1
    \<and> dll (vst2_process_add_plugin example_rack 4) [1, 2, 3, 4]"
proof -
  have h: "chain_end example_rack \<noteq> Some 4" "chain_end example_rack = Some 3"
    "chain example_rack = Some 1"
    by (simp_all add: example_rack_def)
  note t = add_plugin_appends [OF h(1)]
  from t have a: "\<forall>xs. dll example_rack xs \<and> 4 \<notin> set xs \<longrightarrow>
      dll (vst2_process_add_plugin example_rack 4) (xs @ [4])"
    by blast
  from a [rule_format, of "[1, 2, 3]"] example_rack_dll
  have "dll (vst2_process_add_plugin example_rack 4) ([1, 2, 3] @ [4])"
    by simp
  with t h show ?thesis by simp
qed

text \<open>
  \<^bold>\<open>C8\<close>. Node creation returns no node when the descriptor carries no effect, and
  whenever it returns no node, the blocks obtained from \<^verbatim>\<open>g_malloc\<close> are the ones
  that were there before the call, and the head, the tail and the store of plugin
  objects are unchanged.
\<close>

theorem plugin_new_failure:
  "(desc_effect d = None \<longrightarrow> vst2_plugin_new ext d channels s = Inr (None, s))
   \<and> (\<forall>s'. vst2_plugin_new ext d channels s = Inr (None, s') \<longrightarrow>
         live s' = live s \<and> chain s' = chain s \<and> chain_end s' = chain_end s
         \<and> store s' = store s)"
proof -
  have "vst2_plugin_new ext d channels s = Inr (None, s)" if "desc_effect d = None"
    using that by (simp add: vst2_plugin_new_def vst2_plugin_open_plugin_def Let_def)
  then have "desc_effect d = None \<longrightarrow> vst2_plugin_new ext d channels s = Inr (None, s)"
    by blast
  moreover have "\<forall>s'. vst2_plugin_new ext d channels s = Inr (None, s') \<longrightarrow>
         live s' = live s \<and> chain s' = chain s \<and> chain_end s' = chain_end s
         \<and> store s' = store s"
    by (auto dest: new_None)
  ultimately show ?thesis by blast
qed

theorem plugin_new_failure_witness:
  "desc_effect (example_desc\<lparr>desc_effect := None\<rparr>) = None
   \<and> vst2_plugin_new example_externals (example_desc\<lparr>desc_effect := None\<rparr>) 2 example_rack
       = Inr (None, example_rack)
   \<and> live example_rack = [1, 2, 3, 4] \<and> chain example_rack = Some 1
   \<and> chain_end example_rack = Some 3"
proof -
  have n: "desc_effect (example_desc\<lparr>desc_effect := None\<rparr>) = None" by simp
  note t = plugin_new_failure [of "example_desc\<lparr>desc_effect := None\<rparr>" example_externals 2
      example_rack]
  from t [THEN conjunct1] n
  have r: "vst2_plugin_new example_externals (example_desc\<lparr>desc_effect := None\<rparr>) 2 example_rack
       = Inr (None, example_rack)"
    by blast
  from t [THEN conjunct2, rule_format, OF r]
  have "live example_rack = live example_rack" by blast
  moreover have "live example_rack = [1, 2, 3, 4]" "chain example_rack = Some 1"
    "chain_end example_rack = Some 3"
    by (simp_all add: example_rack_def)
  ultimately show ?thesis using n r by blast
qed

text \<open>
  \<^bold>\<open>C9\<close>. In every node that creation returns, the array of wet/dry values has one
  entry per channel of the context, and every entry is 1.0.
\<close>

theorem new_plugin_is_fully_wet:
  assumes "vst2_plugin_new ext d channels s = Inr (Some plugin, s')"
  shows "length (wet_dry_values (store s' plugin)) = channels
    \<and> (\<forall>i<channels. wet_dry_values (store s' plugin) ! i = Some 1)"
  using new_values [OF assms] by simp

theorem new_plugin_is_fully_wet_witness:
  "\<exists>plugin s'. vst2_plugin_new example_externals example_desc 2 example_rack = Inr (Some plugin, s')
     \<and> length (wet_dry_values (store s' plugin)) = 2
     \<and> wet_dry_values (store s' plugin) ! 0 = Some 1
     \<and> wet_dry_values (store s' plugin) ! 1 = Some 1"
proof -
  have "desc_effect example_desc = Some 100"
    "control_port_count example_desc \<le> length (control_port_indicies example_desc)"
    "status_port_count example_desc \<le> control_port_count example_desc
       \<or> control_port_count example_desc = 0"
    "jack_client example_rack = None \<or> aux_channels example_desc = 0
       \<or> (\<forall>tr n inp. jack_port_register example_externals tr n inp \<noteq> None)"
    by (simp_all add: example_desc_def example_externals_def)
  from new_succeeds [OF this, of 2] obtain plugin s' where
    n: "vst2_plugin_new example_externals example_desc 2 example_rack = Inr (Some plugin, s')"
    by blast
  from new_plugin_is_fully_wet [OF n] n show ?thesis by auto
qed

text \<open>
  \<^bold>\<open>C10\<close>. Remove and replace, called on a linked node (with well formed plugin
  objects when the audio server client is active), return the node they were given and
  leave its own \<^verbatim>\<open>prev\<close> and \<^verbatim>\<open>next\<close> fields as they were: the node handed back to the
  caller still points at its former neighbours.
\<close>

theorem removed_node_keeps_its_links:
  assumes "dll s xs" "plugin \<in> set xs" "aux_ready s"
  shows "(\<exists>s'. vst2_process_remove_plugin s plugin = Some (s', plugin)
        \<and> get_prev s' plugin = get_prev s plugin \<and> get_next s' plugin = get_next s plugin)
    \<and> (new_plugin \<notin> set xs \<longrightarrow>
        (\<exists>s'. vst2_process_change_plugin s plugin new_plugin = Some (s', plugin)
        \<and> get_prev s' plugin = get_prev s plugin \<and> get_next s' plugin = get_next s plugin))"
proof -
  from assms(2) obtain as bs where xs: "xs = as @ plugin # bs" by (auto dest: split_list)
  note d = assms(1) [unfolded xs]
  from remove_spec [OF d assms(3)] obtain s' where s':
    "vst2_process_remove_plugin s plugin = Some (s', plugin)" "only_aux (unlink_plugin s plugin) s'"
    by blast
  have 1: "\<exists>s'. vst2_process_remove_plugin s plugin = Some (s', plugin)
        \<and> get_prev s' plugin = get_prev s plugin \<and> get_next s' plugin = get_next s plugin"
    using s'(1) only_aux_fields(7,8) [OF s'(2)] unlink_own [OF d] by simp
  have 2: "\<exists>s'. vst2_process_change_plugin s plugin new_plugin = Some (s', plugin)
        \<and> get_prev s' plugin = get_prev s plugin \<and> get_next s' plugin = get_next s plugin"
    if "new_plugin \<notin> set xs"
  proof -
    from that have n: "new_plugin \<notin> set (as @ plugin # bs)" by (simp add: xs)
    from change_spec [OF d n assms(3)] obtain s' where s':
      "vst2_process_change_plugin s plugin new_plugin = Some (s', plugin)"
      "only_aux (splice_plugin s plugin new_plugin) s'"
      by blast
    show ?thesis
      using s'(1) only_aux_fields(7,8) [OF s'(2)] splice_own [OF d n] by simp
  qed
  from 1 2 show ?thesis by blast
qed

theorem removed_node_keeps_its_links_witness:
  "dll example_rack [1, 2, 3] \<and> 2 \<in> set [1, 2, 3 :: nat] \<and> aux_ready example_rack
    \<and> 4 \<notin> set [1, 2, 3 :: nat]
    \<and> (\<exists>s'. vst2_process_remove_plugin example_rack 2 = Some (s', 2)
        \<and> get_prev s' 2 = Some 1 \<and> get_next s' 2 = Some 3)
    \<and> (\<exists>s'. vst2_process_change_plugin example_rack 2 4 = Some (s', 2)
        \<and> get_prev s' 2 = Some 1 \<and> get_next s' 2 = Some 3)"
proof -
  have m: "2 \<in> set [1, 2, 3 :: nat]" "4 \<notin> set [1, 2, 3 :: nat]" by simp_all
  have l: "get_prev example_rack 2 = Some 1" "get_next example_rack 2 = Some 3"
    by (simp_all add: get_prev_def get_next_def example_defs)
  from removed_node_keeps_its_links [OF example_rack_dll m(1) example_rack_ready(1), of 4] m l
    example_rack_dll example_rack_ready(1)
  show ?thesis by simp
qed

end
